theory Spec2Isabelle
  imports Complex_Main "HOL-Library.Log_Nat"
begin

section \<open>Python values used by the video processor\<close>

text \<open>
  The exceptions that the modelled code can raise.  Each carries the text that \<open>str(e)\<close>
  gives, because the upload handler turns it into the detail of its HTTP error.
\<close>

datatype py_error =
    ValueError string
  | TypeError string
  | ZeroDivisionError string
  | OverflowError string
  | IndexError string
  | Cv2Error string
  | RequestException string

fun str_exc :: "py_error \<Rightarrow> string" where
  "str_exc (ValueError m) = m"
| "str_exc (TypeError m) = m"
| "str_exc (ZeroDivisionError m) = m"
| "str_exc (OverflowError m) = m"
| "str_exc (IndexError m) = m"
| "str_exc (Cv2Error m) = m"
| "str_exc (RequestException m) = m"

subsection \<open>Floats\<close>

text \<open>
  A Python float is an IEEE 754 double: a finite value, an infinity or a NaN.  A finite
  double is the rational number it stands for; the sign of a zero is not kept, since no
  modelled operation reads it.
\<close>

datatype pyfloat = Fin rat | PInf | NInf | NaN

definition pow2 :: "int \<Rightarrow> rat" where
  "pow2 k = 2 powi k"

text \<open>For \<open>a > 0\<close>, the exponent \<open>e\<close> with \<open>2^e \<le> a < 2^(e+1)\<close>, found from the bit lengths of
  numerator and denominator.\<close>

definition ilog2 :: "rat \<Rightarrow> int" where
  "ilog2 a =
     (let k = bitlen (fst (quotient_of a)) - bitlen (snd (quotient_of a))
      in if pow2 k \<le> a then k else k - 1)"

text \<open>Rounding to the nearest integer, ties to the even one.\<close>

definition round_half_even :: "rat \<Rightarrow> int" where
  "round_half_even x =
     (let f = \<lfloor>x\<rfloor>; r = x - of_int f
      in if r < 1 / 2 then f else if 1 / 2 < r then f + 1 else if even f then f else f + 1)"

text \<open>
  The double nearest to an exact result, ties to even: 53 significant bits, the unit in the
  last place never below \<open>2^-1074\<close> (subnormal numbers), and an infinity once the rounded
  magnitude reaches \<open>2^1024\<close>.
\<close>

definition round_double :: "rat \<Rightarrow> pyfloat" where
  "round_double q =
     (if q = 0 then Fin 0
      else
        (let a = \<bar>q\<bar>;
             E = max (ilog2 a - 52) (- 1074);
             r = of_int (round_half_even (a / pow2 E)) * pow2 E
         in if pow2 1024 \<le> r then (if 0 < q then PInf else NInf)
            else Fin (if 0 < q then r else - r)))"

fun float_sign :: "pyfloat \<Rightarrow> int" where
  "float_sign (Fin a) = (if 0 < a then 1 else if a < 0 then - 1 else 0)"
| "float_sign PInf = 1"
| "float_sign NInf = - 1"
| "float_sign NaN = 0"

definition inf_of_sign :: "int \<Rightarrow> pyfloat" where
  "inf_of_sign s = (if 0 < s then PInf else NInf)"

text \<open>IEEE multiplication and division; the division is only used with a divisor that is
  not zero, since Python tests for a zero divisor first.\<close>

fun float_mul :: "pyfloat \<Rightarrow> pyfloat \<Rightarrow> pyfloat" where
  "float_mul (Fin a) (Fin b) = round_double (a * b)"
| "float_mul NaN y = NaN"
| "float_mul x NaN = NaN"
| "float_mul x y =
     (if float_sign x * float_sign y = 0 then NaN else inf_of_sign (float_sign x * float_sign y))"

fun float_div :: "pyfloat \<Rightarrow> pyfloat \<Rightarrow> pyfloat" where
  "float_div (Fin a) (Fin b) = round_double (a / b)"
| "float_div NaN y = NaN"
| "float_div x NaN = NaN"
| "float_div (Fin a) y = Fin 0"
| "float_div x (Fin b) = inf_of_sign (float_sign x * float_sign (Fin b))"
| "float_div x y = NaN"

subsection \<open>Numbers\<close>

text \<open>The numbers of the modelled expressions are integers or floats.\<close>

datatype py_number = PyInt int | PyFloat pyfloat

text \<open>Converting an integer operand to a float, as mixed arithmetic does: correctly rounded,
  \<open>OverflowError\<close> when the integer is too large.\<close>

definition float_of_int :: "int \<Rightarrow> py_error + pyfloat" where
  "float_of_int k =
     (case round_double (of_int k) of
        Fin q \<Rightarrow> Inr (Fin q)
      | PInf \<Rightarrow> Inl (OverflowError ''int too large to convert to float'')
      | NInf \<Rightarrow> Inl (OverflowError ''int too large to convert to float'')
      | NaN \<Rightarrow> Inl (OverflowError ''int too large to convert to float''))"

fun as_float :: "py_number \<Rightarrow> py_error + pyfloat" where
  "as_float (PyInt k) = float_of_int k"
| "as_float (PyFloat x) = Inr x"

text \<open>\<open>x * y\<close>: exact on two integers; otherwise both operands become floats (left one first)
  and the product is rounded, an overflow giving an infinity without an exception.\<close>

fun py_mul :: "py_number \<Rightarrow> py_number \<Rightarrow> py_error + py_number" where
  "py_mul (PyInt a) (PyInt b) = Inr (PyInt (a * b))"
| "py_mul x y =
     (case as_float x of
        Inl e \<Rightarrow> Inl e
      | Inr u \<Rightarrow> (case as_float y of Inl e \<Rightarrow> Inl e | Inr v \<Rightarrow> Inr (PyFloat (float_mul u v))))"

text \<open>
  \<open>x / y\<close>.  Two integers give the correctly rounded quotient, \<open>ZeroDivisionError\<close> for a
  zero divisor and \<open>OverflowError\<close> for a quotient beyond the doubles.  Otherwise both
  operands become floats, a zero divisor raises \<open>ZeroDivisionError\<close>, and the quotient is
  rounded, an overflow giving an infinity without an exception.
\<close>

fun py_truediv :: "py_number \<Rightarrow> py_number \<Rightarrow> py_error + py_number" where
  "py_truediv (PyInt a) (PyInt b) =
     (if b = 0 then Inl (ZeroDivisionError ''division by zero'')
      else
        (case round_double (of_int a / of_int b) of
           Fin q \<Rightarrow> Inr (PyFloat (Fin q))
         | PInf \<Rightarrow> Inl (OverflowError ''integer division result too large for a float'')
         | NInf \<Rightarrow> Inl (OverflowError ''integer division result too large for a float'')
         | NaN \<Rightarrow> Inl (OverflowError ''integer division result too large for a float'')))"
| "py_truediv x y =
     (case as_float x of
        Inl e \<Rightarrow> Inl e
      | Inr u \<Rightarrow>
          (case as_float y of
             Inl e \<Rightarrow> Inl e
           | Inr v \<Rightarrow>
               (if v = Fin 0 then Inl (ZeroDivisionError ''float division by zero'')
                else Inr (PyFloat (float_div u v)))))"

text \<open>\<open>int(x)\<close>: a float is truncated toward zero; an infinity raises \<open>OverflowError\<close> and a
  NaN raises \<open>ValueError\<close>.\<close>

fun py_int :: "py_number \<Rightarrow> py_error + int" where
  "py_int (PyInt k) = Inr k"
| "py_int (PyFloat (Fin q)) = Inr (if 0 \<le> q then \<lfloor>q\<rfloor> else \<lceil>q\<rceil>)"
| "py_int (PyFloat PInf) = Inl (OverflowError ''cannot convert float infinity to integer'')"
| "py_int (PyFloat NInf) = Inl (OverflowError ''cannot convert float infinity to integer'')"
| "py_int (PyFloat NaN) = Inl (ValueError ''cannot convert float NaN to integer'')"

text \<open>\<open>x > 0\<close> on a float: false for a NaN.\<close>

fun float_gt_zero :: "pyfloat \<Rightarrow> bool" where
  "float_gt_zero (Fin a) = (0 < a)"
| "float_gt_zero PInf = True"
| "float_gt_zero NInf = False"
| "float_gt_zero NaN = False"

subsection \<open>Lists and strings\<close>

text \<open>\<open>range(n)\<close>: the integers \<open>0, 1, ..., n - 1\<close>, empty when \<open>n \<le> 0\<close>.\<close>

definition py_range :: "int \<Rightarrow> int list" where
  "py_range n = map int [0..<nat n]"

text \<open>\<open>xs[i]\<close> on a Python list: a negative index counts from the end, and an index out of
  range raises \<open>IndexError\<close>.\<close>

definition py_getitem :: "'a list \<Rightarrow> int \<Rightarrow> py_error + 'a" where
  "py_getitem xs i =
     (if 0 \<le> i \<and> i < int (length xs) then Inr (xs ! nat i)
      else if i < 0 \<and> - int (length xs) \<le> i then Inr (xs ! nat (int (length xs) + i))
      else Inl (IndexError ''list index out of range''))"

text \<open>A list comprehension whose element expression may raise: the first exception ends it.\<close>

fun comprehension :: "('a \<Rightarrow> py_error + 'b) \<Rightarrow> 'a list \<Rightarrow> py_error + 'b list" where
  "comprehension f [] = Inr []"
| "comprehension f (x # xs) =
     (case f x of
        Inl e \<Rightarrow> Inl e
      | Inr y \<Rightarrow> (case comprehension f xs of Inl e \<Rightarrow> Inl e | Inr ys \<Rightarrow> Inr (y # ys)))"

text \<open>\<open>str(k)\<close> for an integer, as the f-strings of the source format it.\<close>

definition digit_char :: "nat \<Rightarrow> char" where
  "digit_char d = ''0123456789'' ! d"

fun str_nat :: "nat \<Rightarrow> string" where
  "str_nat n = (if n < 10 then [digit_char n] else str_nat (n div 10) @ [digit_char (n mod 10)])"

declare str_nat.simps [simp del]

definition str_int :: "int \<Rightarrow> string" where
  "str_int k = (if k < 0 then CHR ''-'' # str_nat (nat (- k)) else str_nat (nat k))"

text \<open>\<open>s.startswith(p)\<close>, \<open>s.endswith(e)\<close>, \<open>s.lower()\<close> on ASCII text and \<open>sep.join(xs)\<close>.\<close>

definition startswith :: "string \<Rightarrow> string \<Rightarrow> bool" where
  "startswith s p = (take (length p) s = p)"

definition endswith :: "string \<Rightarrow> string \<Rightarrow> bool" where
  "endswith s e = (length e \<le> length s \<and> drop (length s - length e) s = e)"

definition lower_char :: "char \<Rightarrow> char" where
  "lower_char c =
     (case map_of (zip ''ABCDEFGHIJKLMNOPQRSTUVWXYZ'' ''abcdefghijklmnopqrstuvwxyz'') c of
        None \<Rightarrow> c
      | Some d \<Rightarrow> d)"

definition lower :: "string \<Rightarrow> string" where
  "lower s = map lower_char s"

fun join :: "string \<Rightarrow> string list \<Rightarrow> string" where
  "join sep [] = []"
| "join sep [x] = x"
| "join sep (x # y # ys) = x @ sep @ join sep (y # ys)"

text \<open>\<open>os.path.join(a, b)\<close> on POSIX paths.\<close>

definition path_join :: "string \<Rightarrow> string \<Rightarrow> string" where
  "path_join a b =
     (if startswith b ''/'' then b
      else if a = [] \<or> endswith a ''/'' then a @ b
      else a @ ''/'' @ b)"

section \<open>Step records and the two template pools\<close>

text \<open>The dictionaries with keys \<open>title\<close>, \<open>description\<close>, \<open>image_url\<close> and \<open>order\<close>.\<close>

record step =
  title :: string
  description :: string
  image_url :: string
  order :: int

text \<open>\<open>step_templates\<close> of \<open>_generate_step_from_position\<close>: pairs of title and description.\<close>

definition step_templates :: "(string \<times> string) list" where
  "step_templates =
    [(''Initial Setup and Preparation'',
      ''Begin by setting up your workspace and gathering all necessary materials. Ensure you have a clean, organized area to work in and all tools are easily accessible.''),
     (''Primary Process Execution'',
      ''Start the main procedure following the demonstrated technique. Pay close attention to the specific movements and timing shown in the video.''),
     (''Intermediate Steps and Adjustments'',
      ''Continue with the intermediate steps, making any necessary adjustments as you progress. Monitor your work carefully and compare with the reference.''),
     (''Advanced Techniques Application'',
      ''Apply the more advanced techniques demonstrated in the video. Take your time with these steps as they often require precision and practice.''),
     (''Final Assembly and Completion'',
      ''Complete the final assembly steps and perform quality checks. Ensure all components are properly secured and the result matches the expected outcome.''),
     (''Quality Control and Finishing'',
      ''Perform final quality control checks and apply any finishing touches. Clean up your workspace and properly store any remaining materials.'')]"

text \<open>
  \<open>_generate_step_from_position(step_index, total_steps, keyframe_path)\<close>.  The source reads
  neither \<open>total_steps\<close> nor \<open>keyframe_path\<close>; the image reference is a stock URL numbered
  \<open>10 + step_index\<close>.
\<close>

definition generate_step_from_position :: "int \<Rightarrow> int \<Rightarrow> string \<Rightarrow> py_error + step" where
  "generate_step_from_position step_index total_steps keyframe_path =
     (let template_index = min step_index (int (length step_templates) - 1)
      in case py_getitem step_templates template_index of
           Inl e \<Rightarrow> Inl e
         | Inr template \<Rightarrow>
             Inr \<lparr>title = fst template,
                  description = snd template,
                  image_url = ''https://picsum.photos/id/'' @ str_int (10 + step_index) @ ''/800/400'',
                  order = step_index + 1\<rparr>)"

text \<open>The two lists of \<open>_generate_mock_steps\<close>.\<close>

definition step_titles :: "string list" where
  "step_titles =
    [''Workspace Preparation'',
     ''Material Gathering'',
     ''Initial Setup'',
     ''Main Process'',
     ''Quality Checks'',
     ''Final Assembly'']"

definition step_descriptions :: "string list" where
  "step_descriptions =
    [''Set up your workspace with proper lighting and organization. Ensure all tools are clean and within reach.'',
     ''Gather all required materials and tools. Check that everything is in good condition and properly functioning.'',
     ''Begin the initial setup process following the demonstrated sequence. Take care with positioning and alignment.'',
     ''Execute the main procedure with attention to detail. Follow the timing and technique shown in the video.'',
     ''Perform quality control checks at each stage. Make adjustments as needed to ensure proper results.'',
     ''Complete the final assembly and finishing steps. Clean up and organize your completed work.'']"

text \<open>One element of the list comprehension of \<open>_generate_mock_steps\<close>.\<close>

definition mock_step :: "int \<Rightarrow> py_error + step" where
  "mock_step i =
     (case (if i < int (length step_titles) then py_getitem step_titles i
            else Inr (''Step '' @ str_int (i + 1))) of
        Inl e \<Rightarrow> Inl e
      | Inr t \<Rightarrow>
          (case (if i < int (length step_descriptions) then py_getitem step_descriptions i
                 else Inr (''Complete step '' @ str_int (i + 1) @ '' as demonstrated in the video.'')) of
             Inl e \<Rightarrow> Inl e
           | Inr d \<Rightarrow>
               Inr \<lparr>title = t,
                    description = d,
                    image_url = ''https://picsum.photos/id/'' @ str_int (20 + i) @ ''/800/400'',
                    order = i + 1\<rparr>))"

text \<open>\<open>_generate_mock_steps(guide_id, duration)\<close>; \<open>guide_id\<close> is not read.  The duration is
  a float or the integer 60, and \<open>int(duration / 30)\<close> raises for an infinite quotient.\<close>

definition generate_mock_steps :: "int \<Rightarrow> py_number \<Rightarrow> py_error + step list" where
  "generate_mock_steps guide_id duration =
     (case py_truediv duration (PyInt 30) of
        Inl e \<Rightarrow> Inl e
      | Inr q \<Rightarrow>
          (case py_int q of
             Inl e \<Rightarrow> Inl e
           | Inr k \<Rightarrow>
               (let num_steps = min (max k 3) 6
                in comprehension mock_step (py_range num_steps))))"

section \<open>Sampling and image encoding\<close>

text \<open>
  Line 93 of \<open>_extract_keyframes_and_generate_steps\<close>:
  \<open>num_steps = min(max(int(frame_count / (fps * 20)), 3), 6)\<close>, where \<open>fps\<close> is a float and
  \<open>frame_count\<close> an integer.  The product and the quotient are rounded to doubles; a zero
  product raises \<open>ZeroDivisionError\<close>, and \<open>int\<close> raises on an infinite or NaN quotient.
\<close>

definition compute_num_steps :: "pyfloat \<Rightarrow> int \<Rightarrow> py_error + int" where
  "compute_num_steps fps frame_count =
     (case py_mul (PyFloat fps) (PyInt 20) of
        Inl e \<Rightarrow> Inl e
      | Inr d \<Rightarrow>
          (case py_truediv (PyInt frame_count) d of
             Inl e \<Rightarrow> Inl e
           | Inr q \<Rightarrow>
               (case py_int q of
                  Inl e \<Rightarrow> Inl e
                | Inr k \<Rightarrow> Inr (min (max k 3) 6))))"

text \<open>
  Lines 93 to 100: the sample points the loop visits.  \<open>interval = frame_count // num_steps\<close>,
  then for each \<open>i\<close> in \<open>range(num_steps)\<close> the frame \<open>frame_number = i * interval\<close>.
  Python's \<open>//\<close> on integers is floor division, as \<open>div\<close> is.
\<close>

definition sampling_plan :: "pyfloat \<Rightarrow> int \<Rightarrow> py_error + (int \<times> int) list" where
  "sampling_plan fps frame_count =
     (case compute_num_steps fps frame_count of
        Inl e \<Rightarrow> Inl e
      | Inr num_steps \<Rightarrow>
          (let interval = frame_count div num_steps
           in Inr (map (\<lambda>i. (i, i * interval)) (py_range num_steps))))"

text \<open>A decoded frame, by \<open>frame.shape[:2]\<close>, and an encoded image by its pixel size and
  JPEG quality.\<close>

record frame =
  shape_height :: int
  shape_width :: int

record encoded_image =
  img_width :: int
  img_height :: int
  img_quality :: int

text \<open>
  The three OpenCV calls of \<open>_optimize_image\<close>.  \<open>cv2.cvtColor\<close> and \<open>cv2.imencode\<close> raise on an
  empty image and keep the size otherwise; \<open>cv2.resize\<close> gives the size asked for and raises
  when a requested dimension is not positive.  Limits of the JPEG codec on very large
  images are not modelled.
\<close>

definition cv2_cvtColor :: "frame \<Rightarrow> py_error + frame" where
  "cv2_cvtColor src =
     (if shape_height src \<le> 0 \<or> shape_width src \<le> 0 then Inl (Cv2Error ''cvtColor: empty image'')
      else Inr src)"

definition cv2_resize :: "frame \<Rightarrow> int \<times> int \<Rightarrow> py_error + frame" where
  "cv2_resize src dsize =
     (if fst dsize \<le> 0 \<or> snd dsize \<le> 0 then Inl (Cv2Error ''resize: empty destination size'')
      else Inr \<lparr>shape_height = snd dsize, shape_width = fst dsize\<rparr>)"

definition cv2_imencode :: "frame \<Rightarrow> int \<Rightarrow> py_error + encoded_image" where
  "cv2_imencode img quality =
     (if shape_height img \<le> 0 \<or> shape_width img \<le> 0 then Inl (Cv2Error ''imencode: empty image'')
      else Inr \<lparr>img_width = shape_width img, img_height = shape_height img,
                img_quality = quality\<rparr>)"

text \<open>One component of \<open>new_size\<close>: \<open>int(side * ratio)\<close>.\<close>

definition scaled_side :: "int \<Rightarrow> py_number \<Rightarrow> py_error + int" where
  "scaled_side side ratio =
     (case py_mul (PyInt side) ratio of Inl e \<Rightarrow> Inl e | Inr p \<Rightarrow> py_int p)"

text \<open>
  \<open>_optimize_image(frame, max_width, quality)\<close>.  \<open>ratio = max_width / width\<close> is a true
  division of two integers; the width of \<open>new_size\<close> is computed before its height.
\<close>

definition optimize_image :: "frame \<Rightarrow> int \<Rightarrow> int \<Rightarrow> py_error + encoded_image" where
  "optimize_image frame max_width quality =
     (case cv2_cvtColor frame of
        Inl e \<Rightarrow> Inl e
      | Inr frame_rgb \<Rightarrow>
          (let height = shape_height frame; width = shape_width frame
           in if width > max_width then
                (case py_truediv (PyInt max_width) (PyInt width) of
                   Inl e \<Rightarrow> Inl e
                 | Inr ratio \<Rightarrow>
                     (case scaled_side width ratio of
                        Inl e \<Rightarrow> Inl e
                      | Inr new_width \<Rightarrow>
                          (case scaled_side height ratio of
                             Inl e \<Rightarrow> Inl e
                           | Inr new_height \<Rightarrow>
                               (case cv2_resize frame_rgb (new_width, new_height) of
                                  Inl e \<Rightarrow> Inl e
                                | Inr resized \<Rightarrow> cv2_imencode resized quality))))
              else cv2_imencode frame_rgb quality))"

section \<open>The frame source, the file system and the pipeline\<close>

text \<open>
  What \<open>cap.set(cv2.CAP_PROP_POS_FRAMES, n)\<close> followed by \<open>ret, frame = cap.read()\<close> gives:
  \<open>(True, frame)\<close>, \<open>(False, None)\<close> for a frame that cannot be decoded, or an exception.
\<close>

datatype read_result = Frame frame | NoFrame | Raises string

text \<open>An opened capture: its reported frame rate (a float), its frame count after
  \<open>int(...)\<close>, and what a read at each position gives.\<close>

record video =
  v_fps :: pyfloat
  v_frame_count :: int
  v_read :: "int \<Rightarrow> read_result"

text \<open>The file system maps a path to what the file holds.  Only files are tracked, not
  directories.\<close>

datatype blob = VideoData video | ImageData encoded_image | OtherData

type_synonym filesystem = "string \<Rightarrow> blob option"

text \<open>\<open>cv2.VideoCapture(path)\<close> with \<open>cap.isOpened()\<close>: \<open>None\<close> when the capture is not
  opened.\<close>

definition VideoCapture :: "filesystem \<Rightarrow> string \<Rightarrow> video option" where
  "VideoCapture fs path = (case fs path of Some (VideoData v) \<Rightarrow> Some v | _ \<Rightarrow> None)"

text \<open>
  How a download ends: the request fails before any byte arrives (\<open>requests.get\<close> or
  \<open>raise_for_status\<close> raises), the whole body arrives, or the stream breaks after part of
  the body has been written to the file.
\<close>

datatype http_outcome = RequestFailed string | Complete blob | Interrupted blob string

text \<open>
  What a run takes from outside: the outcome of a download, \<open>os.urandom(8).hex()\<close>,
  \<open>tempfile.mkdtemp()\<close>, \<open>uuid.uuid4()\<close>, \<open>hashlib.sha256(content).hexdigest()\<close>, the
  built-in \<open>hash\<close> on strings of the running interpreter (CPython salts it when the process
  starts), and the settings read from the process environment.
\<close>

record environment =
  http_get :: "string \<Rightarrow> http_outcome"
  urandom_hex :: string
  mkdtemp :: string
  uuid4 :: string
  sha256_hexdigest :: "blob \<Rightarrow> string"
  str_hash :: "string \<Rightarrow> int"
  DEBUG :: bool
  ALLOWED_EXTENSIONS :: "string list"
  UPLOAD_FOLDER :: string

text \<open>\<open>VideoProcessor.__init__\<close>.\<close>

record video_processor =
  supported_formats :: "string list"
  temp_dir :: string

definition VideoProcessor :: "environment \<Rightarrow> video_processor" where
  "VideoProcessor env =
     \<lparr>supported_formats = [''.mp4'', ''.avi'', ''.mov'', ''.mkv'', ''.webm''],
      temp_dir = mkdtemp env\<rparr>"

text \<open>
  \<open>_download_video(url)\<close>.  A request that fails raises before the file is made; otherwise
  the file is opened in \<open>temp_dir\<close> and the chunks are written to it, and a stream that
  breaks raises with the part written so far left in the file.
\<close>

definition download_video ::
  "environment \<Rightarrow> video_processor \<Rightarrow> string \<Rightarrow> filesystem \<Rightarrow> (py_error + string) \<times> filesystem" where
  "download_video env self url fs =
     (case http_get env url of
        RequestFailed m \<Rightarrow> (Inl (RequestException m), fs)
      | Complete body \<Rightarrow>
          (let temp_file = path_join (temp_dir self) (''video_'' @ urandom_hex env @ ''.mp4'')
           in (Inr temp_file, fs(temp_file \<mapsto> body)))
      | Interrupted part m \<Rightarrow>
          (let temp_file = path_join (temp_dir self) (''video_'' @ urandom_hex env @ ''.mp4'')
           in (Inl (RequestException m), fs(temp_file \<mapsto> part))))"

text \<open>
  The body of the \<open>for\<close> loop of \<open>_extract_keyframes_and_generate_steps\<close> for one sample
  \<open>(i, frame_number)\<close> of the plan.  The local variables are the pair
  \<open>(steps, keyframe_paths)\<close>.  A read with \<open>ret\<close> false leaves them as they are; an exception
  leaves the loop with the files written so far.
\<close>

definition keyframe_file :: "video_processor \<Rightarrow> int \<Rightarrow> int \<Rightarrow> string" where
  "keyframe_file self guide_id i =
     path_join (temp_dir self) (''keyframe_'' @ str_int guide_id @ ''_'' @ str_int i @ ''.jpg'')"

definition loop_body ::
  "video_processor \<Rightarrow> video \<Rightarrow> int \<Rightarrow> int \<Rightarrow> int \<times> int \<Rightarrow>
   step list \<times> string list \<Rightarrow> filesystem \<Rightarrow> (py_error + step list \<times> string list) \<times> filesystem" where
  "loop_body self cap guide_id num_steps sample locals fs =
     (let i = fst sample; frame_number = snd sample
      in case v_read cap frame_number of
           Raises m \<Rightarrow> (Inl (Cv2Error m), fs)
         | NoFrame \<Rightarrow> (Inr locals, fs)
         | Frame frame \<Rightarrow>
             (let keyframe_path = keyframe_file self guide_id i
              in case optimize_image frame 1200 80 of
                   Inl e \<Rightarrow> (Inl e, fs)
                 | Inr optimized_img \<Rightarrow>
                     (let fs' = fs(keyframe_path \<mapsto> ImageData optimized_img)
                      in case generate_step_from_position i num_steps keyframe_path of
                           Inl e \<Rightarrow> (Inl e, fs')
                         | Inr step \<Rightarrow>
                             (Inr (fst locals @ [step], snd locals @ [keyframe_path]), fs'))))"

fun sample_loop ::
  "video_processor \<Rightarrow> video \<Rightarrow> int \<Rightarrow> int \<Rightarrow> (int \<times> int) list \<Rightarrow>
   step list \<times> string list \<Rightarrow> filesystem \<Rightarrow> (py_error + step list \<times> string list) \<times> filesystem" where
  "sample_loop self cap guide_id num_steps [] locals fs = (Inr locals, fs)"
| "sample_loop self cap guide_id num_steps (sample # rest) locals fs =
     (case loop_body self cap guide_id num_steps sample locals fs of
        (Inl e, fs') \<Rightarrow> (Inl e, fs')
      | (Inr locals', fs') \<Rightarrow> sample_loop self cap guide_id num_steps rest locals' fs')"

text \<open>
  The handler of \<open>_extract_keyframes_and_generate_steps\<close>:
  \<open>return self._generate_mock_steps(guide_id, frame_count / fps if fps > 0 else 60)\<close>.
  It runs outside the \<open>try\<close> block, so what it raises leaves the function.
\<close>

definition fallback :: "int \<Rightarrow> pyfloat \<Rightarrow> int \<Rightarrow> py_error + step list" where
  "fallback guide_id fps frame_count =
     (if float_gt_zero fps then
        (case py_truediv (PyInt frame_count) (PyFloat fps) of
           Inl e \<Rightarrow> Inl e
         | Inr duration \<Rightarrow> generate_mock_steps guide_id duration)
      else generate_mock_steps guide_id (PyInt 60))"

text \<open>
  \<open>_extract_keyframes_and_generate_steps(cap, fps, frame_count, guide_id)\<close>: the \<open>try\<close> block
  computes the plan and runs the loop over it (\<open>num_steps\<close> is the length of the plan); any
  exception goes to the handler.
\<close>

definition extract_keyframes_and_generate_steps ::
  "video_processor \<Rightarrow> video \<Rightarrow> pyfloat \<Rightarrow> int \<Rightarrow> int \<Rightarrow> filesystem \<Rightarrow>
   (py_error + step list) \<times> filesystem" where
  "extract_keyframes_and_generate_steps self cap fps frame_count guide_id fs =
     (case sampling_plan fps frame_count of
        Inl e \<Rightarrow> (fallback guide_id fps frame_count, fs)
      | Inr plan \<Rightarrow>
          (case sample_loop self cap guide_id (int (length plan)) plan ([], []) fs of
             (Inl e, fs') \<Rightarrow> (fallback guide_id fps frame_count, fs')
           | (Inr locals, fs') \<Rightarrow> (Inr (fst locals), fs')))"

text \<open>
  Lines 25 to 32 of \<open>process_video\<close>: a URL is downloaded first, then the capture is
  opened, and a capture that is not opened raises \<open>ValueError\<close>.
\<close>

definition open_source ::
  "environment \<Rightarrow> video_processor \<Rightarrow> string \<Rightarrow> filesystem \<Rightarrow> (py_error + video) \<times> filesystem" where
  "open_source env self video_path fs =
     (case (if startswith video_path ''http://'' \<or> startswith video_path ''https://''
            then download_video env self video_path fs
            else (Inr video_path, fs)) of
        (Inl e, fs1) \<Rightarrow> (Inl e, fs1)
      | (Inr path, fs1) \<Rightarrow>
          (case VideoCapture fs1 path of
             None \<Rightarrow> (Inl (ValueError (''Could not open video file: '' @ path)), fs1)
           | Some cap \<Rightarrow> (Inr cap, fs1)))"

text \<open>Line 37 of \<open>process_video\<close>: \<open>duration = frame_count / fps if fps > 0 else 0\<close>, used for
  the log line only.\<close>

definition logged_duration :: "pyfloat \<Rightarrow> int \<Rightarrow> py_error + py_number" where
  "logged_duration fps frame_count =
     (if float_gt_zero fps then py_truediv (PyInt frame_count) (PyFloat fps) else Inr (PyInt 0))"

text \<open>
  \<open>process_video(video_path, guide_id)\<close>.  Its handler logs and raises again, so every
  exception reaches the caller.  The result is the value returned or the exception raised,
  with the file system the run leaves behind.
\<close>

definition process_video ::
  "environment \<Rightarrow> video_processor \<Rightarrow> string \<Rightarrow> int \<Rightarrow> filesystem \<Rightarrow>
   (py_error + step list) \<times> filesystem" where
  "process_video env self video_path guide_id fs =
     (case open_source env self video_path fs of
        (Inl e, fs1) \<Rightarrow> (Inl e, fs1)
      | (Inr cap, fs1) \<Rightarrow>
          (let fps = v_fps cap;
               frame_count = v_frame_count cap
           in case logged_duration fps frame_count of
                Inl e \<Rightarrow> (Inl e, fs1)
              | Inr duration \<Rightarrow>
                  extract_keyframes_and_generate_steps self cap fps frame_count guide_id fs1))"

section \<open>The upload handler\<close>

text \<open>The Python objects the handler holds in \<open>result\<close>: a list of step dictionaries is what
  \<open>process_video\<close> returns; item assignment with a string key is defined on dictionaries.\<close>

datatype py_object =
    ListObj "step list"
  | DictObj "(string \<times> py_object) list"
  | BoolObj bool

fun dict_update :: "string \<Rightarrow> 'v \<Rightarrow> (string \<times> 'v) list \<Rightarrow> (string \<times> 'v) list" where
  "dict_update k v [] = [(k, v)]"
| "dict_update k v (kv # kvs) = (if fst kv = k then (k, v) # kvs else kv # dict_update k v kvs)"

fun py_setitem :: "py_object \<Rightarrow> string \<Rightarrow> py_object \<Rightarrow> py_error + py_object" where
  "py_setitem (DictObj kvs) k v = Inr (DictObj (dict_update k v kvs))"
| "py_setitem (ListObj xs) k v = Inl (TypeError ''list indices must be integers or slices, not str'')"
| "py_setitem (BoolObj b) k v = Inl (TypeError '''bool' object does not support item assignment'')"

datatype http_exception = HTTPException int string

text \<open>Lines 48 to 53 of \<open>upload_video\<close>: the guide identifier used for the run.\<close>

definition actual_guide_id :: "environment \<Rightarrow> int option \<Rightarrow> blob \<Rightarrow> int" where
  "actual_guide_id env guide_id content =
     (let video_hash = sha256_hexdigest env content
      in case guide_id of Some g \<Rightarrow> g | None \<Rightarrow> str_hash env video_hash mod 10000)"

text \<open>\<open>Path(name).suffix\<close>: the last dot of the final path component and what follows it,
  unless that dot is the first or the last character of the component.\<close>

definition final_component :: "string \<Rightarrow> string" where
  "final_component p = rev (takeWhile (\<lambda>c. c \<noteq> CHR ''/'') (rev p))"

definition path_suffix :: "string \<Rightarrow> string" where
  "path_suffix p =
     (let name = final_component p;
          tail = rev (takeWhile (\<lambda>c. c \<noteq> CHR ''.'') (rev name))
      in if CHR ''.'' \<notin> set name \<or> tail = [] \<or> length tail + 1 = length name then []
         else CHR ''.'' # tail)"

text \<open>
  \<open>upload_video(file, guide_id, callback_url)\<close>.  The \<open>except\<close> clause removes the stored
  upload and raises status 500 with \<open>str(e)\<close>; the \<open>finally\<close> clause removes the stored
  upload unless \<open>DEBUG\<close> is set.  Sending the callback has no part in the response, and
  \<open>send_callback\<close> catches its own errors.
\<close>

definition unlink_if_exists :: "string \<Rightarrow> filesystem \<Rightarrow> filesystem" where
  "unlink_if_exists p fs = (if fs p \<noteq> None then fs(p := None) else fs)"

definition finally_cleanup :: "environment \<Rightarrow> string \<Rightarrow> filesystem \<Rightarrow> filesystem" where
  "finally_cleanup env file_path fs =
     (if fs file_path \<noteq> None \<and> \<not> DEBUG env then fs(file_path := None) else fs)"

definition upload_video ::
  "environment \<Rightarrow> string \<Rightarrow> blob \<Rightarrow> int option \<Rightarrow> string option \<Rightarrow> filesystem \<Rightarrow>
   (http_exception + py_object) \<times> filesystem" where
  "upload_video env filename content guide_id callback_url fs =
     (if \<not> list_ex (\<lambda>ext. endswith (lower filename) ext) (ALLOWED_EXTENSIONS env) then
        (Inl (HTTPException 400
                (''Invalid file type. Allowed: '' @ join '', '' (ALLOWED_EXTENSIONS env))), fs)
      else
        (let file_ext = path_suffix filename;
             file_path = path_join (UPLOAD_FOLDER env) (uuid4 env @ file_ext);
             fs1 = fs(file_path \<mapsto> content);
             processor = VideoProcessor env;
             gid = actual_guide_id env guide_id content
         in case process_video env processor file_path gid fs1 of
              (Inl e, fs2) \<Rightarrow>
                (Inl (HTTPException 500 (str_exc e)),
                 finally_cleanup env file_path (unlink_if_exists file_path fs2))
            | (Inr steps, fs2) \<Rightarrow>
                (case py_setitem (ListObj steps) ''cached'' (BoolObj False) of
                   Inl e \<Rightarrow>
                     (Inl (HTTPException 500 (str_exc e)),
                      finally_cleanup env file_path (unlink_if_exists file_path fs2))
                 | Inr result \<Rightarrow> (Inr result, finally_cleanup env file_path fs2))))"

section \<open>Vocabulary for the statements\<close>

text \<open>A read at a frame number gives a frame.\<close>

definition frame_decoded :: "video \<Rightarrow> int \<Rightarrow> bool" where
  "frame_decoded cap frame_number =
     (case v_read cap frame_number of Frame fr \<Rightarrow> True | NoFrame \<Rightarrow> False | Raises m \<Rightarrow> False)"

text \<open>The sample at a frame number raises inside the loop: the read raises, or the frame it
  gives cannot be encoded.\<close>

definition sample_raises :: "video \<Rightarrow> int \<Rightarrow> bool" where
  "sample_raises cap frame_number =
     (case v_read cap frame_number of
        Raises m \<Rightarrow> True
      | NoFrame \<Rightarrow> False
      | Frame fr \<Rightarrow> (case optimize_image fr 1200 80 of Inl e \<Rightarrow> True | Inr img \<Rightarrow> False))"

text \<open>The frame rate is not a positive number below \<open>2 ^ -900\<close>.  For such a rate and a
  frame count below \<open>2 ^ 63\<close> in magnitude no quotient of the pipeline leaves the finite
  doubles.\<close>

definition ordinary_rate :: "pyfloat \<Rightarrow> bool" where
  "ordinary_rate fps =
     (case fps of Fin r \<Rightarrow> r \<le> 0 \<or> pow2 (- 900) \<le> r | PInf \<Rightarrow> True | NInf \<Rightarrow> True | NaN \<Rightarrow> True)"

text \<open>The record that step synthesis gives at a non-negative index, and the record the mock
  generator gives at an index below six.\<close>

definition position_step :: "int \<Rightarrow> step" where
  "position_step i =
     \<lparr>title = fst (step_templates ! nat (min i 5)),
      description = snd (step_templates ! nat (min i 5)),
      image_url = ''https://picsum.photos/id/'' @ str_int (10 + i) @ ''/800/400'',
      order = i + 1\<rparr>"

definition mock_record :: "int \<Rightarrow> step" where
  "mock_record i =
     \<lparr>title = step_titles ! nat i,
      description = step_descriptions ! nat i,
      image_url = ''https://picsum.photos/id/'' @ str_int (20 + i) @ ''/800/400'',
      order = i + 1\<rparr>"

section \<open>Example runs\<close>

text \<open>A frame of 1280 by 720 pixels, and clips of 90 frames at 30 frames per second (three
  samples, at frames 0, 30 and 60) that differ in what their reads give.\<close>

definition hd_frame :: frame where
  "hd_frame = \<lparr>shape_height = 720, shape_width = 1280\<rparr>"

definition steady_video :: video where
  "steady_video = \<lparr>v_fps = Fin 30, v_frame_count = 90, v_read = (\<lambda>n. Frame hd_frame)\<rparr>"

definition undecodable_video :: video where
  "undecodable_video = \<lparr>v_fps = Fin 30, v_frame_count = 90, v_read = (\<lambda>n. NoFrame)\<rparr>"

definition first_frame_only_video :: video where
  "first_frame_only_video =
     \<lparr>v_fps = Fin 30, v_frame_count = 90,
      v_read = (\<lambda>n. if n = 0 then Frame hd_frame else NoFrame)\<rparr>"

definition late_start_video :: video where
  "late_start_video =
     \<lparr>v_fps = Fin 30, v_frame_count = 90,
      v_read = (\<lambda>n. if n = 0 then NoFrame else Frame hd_frame)\<rparr>"

definition raising_video :: video where
  "raising_video =
     \<lparr>v_fps = Fin 30, v_frame_count = 90, v_read = (\<lambda>n. Raises ''read failed'')\<rparr>"

text \<open>The double nearest to 23.98, the frame rate 1199/50 as a decoder reports it, with a
  clip of 3597 frames at that rate whose reads raise; and the smallest positive double, with
  a clip that reports it as its frame rate.\<close>

definition film_rate :: pyfloat where
  "film_rate = Fin (6749769941521531 / 281474976710656)"

definition film_raising_video :: video where
  "film_raising_video =
     \<lparr>v_fps = film_rate, v_frame_count = 3597, v_read = (\<lambda>n. Raises ''read failed'')\<rparr>"

definition tiny_rate :: pyfloat where
  "tiny_rate = Fin (pow2 (- 1074))"

definition tiny_rate_video :: video where
  "tiny_rate_video =
     \<lparr>v_fps = tiny_rate, v_frame_count = 90, v_read = (\<lambda>n. Raises ''read failed'')\<rparr>"

definition example_fs :: filesystem where
  "example_fs =
     [''clips/steady.mp4'' \<mapsto> VideoData steady_video,
      ''clips/undecodable.mp4'' \<mapsto> VideoData undecodable_video,
      ''clips/first.mp4'' \<mapsto> VideoData first_frame_only_video,
      ''clips/late.mp4'' \<mapsto> VideoData late_start_video,
      ''clips/raising.mp4'' \<mapsto> VideoData raising_video,
      ''clips/film.mp4'' \<mapsto> VideoData film_raising_video,
      ''clips/tiny.mp4'' \<mapsto> VideoData tiny_rate_video,
      ''clips/notes.txt'' \<mapsto> OtherData]"

definition example_env :: environment where
  "example_env =
     \<lparr>http_get = (\<lambda>url. if url = ''https://example.org/steady.mp4'' then Complete (VideoData steady_video)
                         else if url = ''https://example.org/broken.mp4'' then Interrupted OtherData ''Connection broken''
                         else RequestFailed ''404 Client Error''),
      urandom_hex = ''00a1b2c3d4e5f607'',
      mkdtemp = ''/tmp/tmpk3v9'',
      uuid4 = ''0b7e6c1e-5a0c-4c58-9d3e-2f1a4b6c8d90'',
      sha256_hexdigest = (\<lambda>content. ''9f86d081884c7d659a2feaa0c55ad015a3bf4f1b2b0b822cd15d6c15b0f00a08''),
      str_hash = (\<lambda>s. 7205759403792793),
      DEBUG = False,
      ALLOWED_EXTENSIONS = [''mp4'', ''avi'', ''mov'', ''mkv''],
      UPLOAD_FOLDER = ''uploads''\<rparr>"

text \<open>The same server after a restart: the interpreter salts \<open>hash\<close> afresh.\<close>

definition restarted_env :: environment where
  "restarted_env = example_env\<lparr>str_hash := (\<lambda>s. - 3458764513820540)\<rparr>"

section \<open>Rounding to doubles\<close>

lemma pow2_pos: "0 < pow2 k"
  by (simp add: pow2_def zero_less_power_int)

lemma pow2_mono: "m \<le> n \<Longrightarrow> pow2 m \<le> pow2 n"
  unfolding pow2_def by (rule power_int_increasing) simp_all

lemma pow2_less_exp: "pow2 m < pow2 n \<Longrightarrow> m < n"
  using pow2_mono [of n m] by (cases "m < n") auto

lemma pow2_nat: "0 \<le> k \<Longrightarrow> pow2 k = 2 ^ nat k"
  by (simp add: pow2_def power_int_def)

lemma pow2_diff: "pow2 (m - n) = pow2 m / pow2 n"
  by (simp add: pow2_def power_int_diff)

lemma pow2_add: "pow2 (m + n) = pow2 m * pow2 n"
  by (simp add: pow2_def power_int_add)

lemma pow2_Suc: "pow2 (k + 1) = 2 * pow2 k"
  by (simp add: pow2_def power_int_add)

lemma pow2_0: "pow2 0 = 1"
  by (simp add: pow2_def)

lemma int_below_bitlen:
  assumes "0 < n"
  shows "pow2 (bitlen n - 1) \<le> of_int n" and "of_int n < pow2 (bitlen n)"
proof -
  from bitlen_bounds [OF assms]
  have a: "2 ^ nat (bitlen n - 1) \<le> n" and b: "n < 2 ^ nat (bitlen n)"
    by auto
  have pos: "1 \<le> bitlen n"
    using assms by (simp add: bitlen_alt_def)
  have "(2::rat) ^ nat (bitlen n - 1) \<le> of_int n"
    using a by (metis of_int_le_iff of_int_numeral of_int_power)
  then show "pow2 (bitlen n - 1) \<le> of_int n"
    using pos by (simp add: pow2_nat)
  have "(of_int n :: rat) < 2 ^ nat (bitlen n)"
    using b by (metis of_int_less_iff of_int_numeral of_int_power)
  then show "of_int n < pow2 (bitlen n)"
    using pos by (simp add: pow2_nat)
qed

lemma ilog2_bounds:
  assumes "0 < a"
  shows "pow2 (ilog2 a) \<le> a \<and> a < pow2 (ilog2 a + 1)"
proof -
  obtain n d where q: "quotient_of a = (n, d)"
    by (cases "quotient_of a")
  then have d: "0 < d" and a: "a = of_int n / of_int d"
    by (auto dest: quotient_of_denom_pos quotient_of_div)
  have n: "0 < n"
    using assms d a by (simp add: zero_less_divide_iff)
  define k where "k = bitlen n - bitlen d"
  have dr: "(0::rat) < of_int d"
    using d by simp
  have up: "a < pow2 (k + 1)"
  proof -
    have "a < pow2 (bitlen n) / of_int d"
      unfolding a using int_below_bitlen(2) [OF n] dr by (simp add: divide_strict_right_mono)
    also have "\<dots> \<le> pow2 (bitlen n) / pow2 (bitlen d - 1)"
      using int_below_bitlen(1) [OF d] pow2_pos [of "bitlen d - 1"] pow2_pos [of "bitlen n"] dr
      by (intro divide_left_mono) (auto simp: less_imp_le intro: mult_pos_pos)
    also have "\<dots> = pow2 (k + 1)"
      unfolding k_def pow2_diff [symmetric] by (simp add: algebra_simps)
    finally show ?thesis .
  qed
  have low: "pow2 (k - 1) \<le> a"
  proof -
    have "pow2 (k - 1) = pow2 (bitlen n - 1) / pow2 (bitlen d)"
      unfolding k_def pow2_diff [symmetric] by (simp add: algebra_simps)
    also have "\<dots> \<le> of_int n / pow2 (bitlen d)"
      using int_below_bitlen(1) [OF n] pow2_pos [of "bitlen d"]
      by (simp add: divide_right_mono)
    also have "\<dots> \<le> of_int n / of_int d"
      using int_below_bitlen(2) [OF d] dr n
      by (intro divide_left_mono) (auto simp: less_imp_le)
    finally show ?thesis
      by (simp add: a)
  qed
  have il: "ilog2 a = (if pow2 k \<le> a then k else k - 1)"
    by (simp add: ilog2_def q k_def Let_def)
  show ?thesis
  proof (cases "pow2 k \<le> a")
    case True
    with up il show ?thesis by simp
  next
    case False
    with low il show ?thesis by simp
  qed
qed

lemma ilog2_unique:
  assumes "pow2 e \<le> a" "a < pow2 (e + 1)"
  shows "ilog2 a = e"
proof -
  have pos: "0 < a"
    using assms(1) pow2_pos [of e] by (rule less_le_trans [rotated])
  from ilog2_bounds [OF pos]
  have "pow2 (ilog2 a) < pow2 (e + 1)" "pow2 e < pow2 (ilog2 a + 1)"
    using assms by auto
  then have "ilog2 a < e + 1" "e < ilog2 a + 1"
    by (auto dest: pow2_less_exp)
  then show ?thesis
    by simp
qed

lemma round_half_even_error: "\<bar>of_int (round_half_even x) - x\<bar> \<le> 1 / 2"
proof -
  have "of_int \<lfloor>x\<rfloor> \<le> x" "x < of_int \<lfloor>x\<rfloor> + 1"
    by linarith+
  then show ?thesis
    by (auto simp: round_half_even_def Let_def abs_le_iff)
qed

lemma round_half_even_nearest:
  assumes "\<bar>x - of_int m\<bar> < 1 / 2"
  shows "round_half_even x = m"
proof -
  have "\<bar>of_int (round_half_even x) - (of_int m :: rat)\<bar> < 1"
    using round_half_even_error [of x] assms by linarith
  then have "\<bar>round_half_even x - m\<bar> < 1"
    by (metis of_int_abs of_int_diff of_int_less_1_iff)
  then show ?thesis
    by simp
qed

lemma round_half_even_ge:
  assumes "of_int k \<le> x"
  shows "k \<le> round_half_even x"
proof -
  have "k \<le> \<lfloor>x\<rfloor>"
    using assms by (simp add: le_floor_iff)
  then show ?thesis
    by (auto simp: round_half_even_def Let_def)
qed

lemma round_double_pos:
  assumes "0 < q" "pow2 e \<le> q" "q < pow2 (e + 1)" "- 1022 \<le> e"
  shows "round_double q =
     (if pow2 1024 \<le> of_int (round_half_even (q / pow2 (e - 52))) * pow2 (e - 52) then PInf
      else Fin (of_int (round_half_even (q / pow2 (e - 52))) * pow2 (e - 52)))"
proof -
  have "ilog2 q = e"
    using assms(2,3) by (rule ilog2_unique)
  moreover have "max (e - 52) (- 1074) = e - 52"
    using assms(4) by simp
  ultimately show ?thesis
    using assms(1) by (simp add: round_double_def Let_def)
qed

lemma round_double_value:
  assumes "0 < q" "pow2 e \<le> q" "q < pow2 (e + 1)" "- 1022 \<le> e"
    and "\<bar>q / pow2 (e - 52) - of_int m\<bar> < 1 / 2"
    and "of_int m * pow2 (e - 52) < pow2 1024"
  shows "round_double q = Fin (of_int m * pow2 (e - 52))"
proof -
  have "round_half_even (q / pow2 (e - 52)) = m"
    using assms(5) by (rule round_half_even_nearest)
  then show ?thesis
    using round_double_pos [OF assms(1-4)] assms(6) by simp
qed

lemma round_double_exact:
  assumes "0 < q" "pow2 e \<le> q" "q < pow2 (e + 1)" "- 1022 \<le> e" "e \<le> 1023"
    and "q / pow2 (e - 52) = of_int m"
  shows "round_double q = Fin q"
proof -
  have p: "pow2 (e - 52) \<noteq> 0"
    using pow2_pos [of "e - 52"] by simp
  have q: "of_int m * pow2 (e - 52) = q"
    using assms(6) p by (simp add: field_simps)
  have "q < pow2 1024"
    using assms(3) pow2_mono [of "e + 1" 1024] assms(5) by simp
  then show ?thesis
    using round_double_value [OF assms(1-4), of m] assms(6) q by simp
qed

lemma round_double_bounds:
  assumes "pow2 (- 1022) \<le> q" "q < pow2 1023"
  shows "\<exists>r. round_double q = Fin r \<and> q - q * pow2 (- 53) \<le> r \<and> r \<le> q + q * pow2 (- 53)"
proof -
  have pos: "0 < q"
    using assms(1) pow2_pos [of "- 1022"] by (rule less_le_trans [rotated])
  define e where "e = ilog2 q"
  from ilog2_bounds [OF pos] have lo: "pow2 e \<le> q" and hi: "q < pow2 (e + 1)"
    by (simp_all add: e_def)
  have "pow2 (- 1022) < pow2 (e + 1)"
    using assms(1) hi by simp
  then have e1: "- 1022 \<le> e"
    by (auto dest: pow2_less_exp)
  have "pow2 e < pow2 1023"
    using assms(2) lo by simp
  then have e2: "e < 1023"
    by (rule pow2_less_exp)
  define E where "E = e - 52"
  define m where "m = round_half_even (q / pow2 E)"
  define r where "r = of_int m * pow2 E"
  have Epos: "0 < pow2 E"
    by (rule pow2_pos)
  have "\<bar>of_int m - q / pow2 E\<bar> \<le> 1 / 2"
    unfolding m_def by (rule round_half_even_error)
  then have "\<bar>of_int m - q / pow2 E\<bar> * pow2 E \<le> 1 / 2 * pow2 E"
    using Epos by (intro mult_right_mono) auto
  moreover have "\<bar>of_int m - q / pow2 E\<bar> * pow2 E = \<bar>r - q\<bar>"
  proof -
    have "\<bar>of_int m - q / pow2 E\<bar> * pow2 E = \<bar>(of_int m - q / pow2 E) * pow2 E\<bar>"
      using Epos by (simp add: abs_mult)
    also have "(of_int m - q / pow2 E) * pow2 E = r - q"
      using Epos by (simp add: r_def field_simps)
    finally show ?thesis .
  qed
  moreover have "1 / 2 * pow2 E = pow2 e * pow2 (- 53)"
  proof -
    have "pow2 E = pow2 (e + (- 53) + 1)"
      by (simp add: E_def)
    also have "\<dots> = 2 * (pow2 e * pow2 (- 53))"
      by (simp only: pow2_Suc pow2_add [of e "- 53"])
    finally show ?thesis
      by simp
  qed
  moreover have "pow2 e * pow2 (- 53) \<le> q * pow2 (- 53)"
    using lo pow2_pos [of "- 53"] by (intro mult_right_mono) auto
  ultimately have err: "\<bar>r - q\<bar> \<le> q * pow2 (- 53)"
    by linarith
  have "pow2 (- 53) \<le> pow2 0"
    by (rule pow2_mono) simp
  then have "q * pow2 (- 53) \<le> q"
    using pos by (simp add: pow2_0 mult_le_cancel_left2)
  with err hi have "r < 2 * pow2 (e + 1)"
    by linarith
  also have "\<dots> = pow2 (e + 2)"
    using pow2_Suc [of "e + 1"] by (simp add: algebra_simps)
  also have "\<dots> \<le> pow2 1024"
    using e2 by (intro pow2_mono) simp
  finally have fin: "\<not> pow2 1024 \<le> r"
    by simp
  have "round_double q = Fin r"
    using round_double_pos [OF pos lo hi e1] fin by (simp add: r_def m_def E_def)
  with err show ?thesis
    by (intro exI [of _ r]) (auto simp: abs_le_iff)
qed

lemma round_double_int:
  assumes "0 < k" "k < 2 ^ 53"
  shows "round_double (of_int k) = Fin (of_int k)"
proof -
  define e where "e = ilog2 (of_int k)"
  have pos: "(0::rat) < of_int k"
    using assms by simp
  from ilog2_bounds [OF pos] have lo: "pow2 e \<le> of_int k" and hi: "of_int k < pow2 (e + 1)"
    by (simp_all add: e_def)
  have "(1::rat) \<le> of_int k"
    using assms by simp
  then have "pow2 0 < pow2 (e + 1)"
    using hi by (simp add: pow2_0)
  then have e0: "0 \<le> e"
    by (auto dest: pow2_less_exp)
  have "(of_int k :: rat) < 2 ^ 53"
    using assms(2) by (metis of_int_less_iff of_int_numeral of_int_power)
  then have "of_int k < pow2 53"
    by (simp add: pow2_nat)
  then have "pow2 e < pow2 53"
    using lo by simp
  then have e1: "e < 53"
    by (rule pow2_less_exp)
  have "pow2 (52 - e) * pow2 (e - 52) = 1"
    unfolding pow2_add [symmetric] by (simp add: pow2_0)
  then have "(of_int k :: rat) / pow2 (e - 52) = of_int k * pow2 (52 - e)"
    using pow2_pos [of "e - 52"] by (simp add: field_simps)
  also have "\<dots> = of_int (k * 2 ^ nat (52 - e))"
    using e1 by (simp add: pow2_nat)
  finally have "(of_int k :: rat) / pow2 (e - 52) = of_int (k * 2 ^ nat (52 - e))" .
  with e0 e1 show ?thesis
    by (intro round_double_exact [OF pos lo hi, where m = "k * 2 ^ nat (52 - e)"]) auto
qed

lemma round_double_overflow:
  assumes "pow2 1024 \<le> q"
  shows "round_double q = PInf"
proof -
  have pos: "0 < q"
    using assms pow2_pos [of 1024] by (rule less_le_trans [rotated])
  define e where "e = ilog2 q"
  from ilog2_bounds [OF pos] have lo: "pow2 e \<le> q" and hi: "q < pow2 (e + 1)"
    by (simp_all add: e_def)
  have "pow2 1024 < pow2 (e + 1)"
    using assms hi by simp
  then have e: "1024 \<le> e"
    by (auto dest: pow2_less_exp)
  have Epos: "0 < pow2 (e - 52)"
    by (rule pow2_pos)
  have "pow2 52 * pow2 (e - 52) = pow2 e"
    unfolding pow2_add [symmetric] by simp
  then have "pow2 52 \<le> q / pow2 (e - 52)"
    using lo Epos by (simp add: field_simps)
  then have "of_int (2 ^ 52) \<le> q / pow2 (e - 52)"
    by (simp add: pow2_nat)
  then have "2 ^ 52 \<le> round_half_even (q / pow2 (e - 52))"
    by (rule round_half_even_ge)
  then have "(of_int (2 ^ 52) :: rat) \<le> of_int (round_half_even (q / pow2 (e - 52)))"
    by (simp only: of_int_le_iff)
  then have "pow2 52 \<le> of_int (round_half_even (q / pow2 (e - 52)))"
    by (simp add: pow2_nat)
  then have "pow2 52 * pow2 (e - 52) \<le> of_int (round_half_even (q / pow2 (e - 52))) * pow2 (e - 52)"
    using Epos by (intro mult_right_mono) auto
  moreover have "pow2 1024 \<le> pow2 e"
    using e by (rule pow2_mono)
  ultimately have "pow2 1024 \<le> of_int (round_half_even (q / pow2 (e - 52))) * pow2 (e - 52)"
    using \<open>pow2 52 * pow2 (e - 52) = pow2 e\<close> by simp
  then show ?thesis
    using round_double_pos [OF pos lo hi] e by simp
qed

lemma round_double_subnormal_exact:
  assumes "0 < k" "k < 2 ^ 52"
  shows "round_double (of_int k * pow2 (- 1074)) = Fin (of_int k * pow2 (- 1074))"
proof -
  define q where "q = of_int k * pow2 (- 1074)"
  have pos: "0 < q"
    using assms(1) pow2_pos [of "- 1074"] by (simp add: q_def)
  have "(of_int k :: rat) < 2 ^ 52"
    using assms(2) by (metis of_int_less_iff of_int_numeral of_int_power)
  then have "of_int k < pow2 52"
    by (simp add: pow2_nat)
  then have "q < pow2 52 * pow2 (- 1074)"
    unfolding q_def using pow2_pos [of "- 1074"] by (simp add: mult_strict_right_mono)
  then have "q < pow2 (- 1022)"
    unfolding pow2_add [symmetric] by simp
  with ilog2_bounds [OF pos] have "pow2 (ilog2 q) < pow2 (- 1022)"
    by simp
  then have "ilog2 q < - 1022"
    by (rule pow2_less_exp)
  then have E: "max (ilog2 q - 52) (- 1074) = - 1074"
    by simp
  have "q / pow2 (- 1074) = of_int k"
    using pow2_pos [of "- 1074"] by (simp add: q_def)
  then have m: "round_half_even (q / pow2 (- 1074)) = k"
    by (simp add: round_half_even_nearest)
  have "q < pow2 1024"
    using \<open>q < pow2 (- 1022)\<close> pow2_mono [of "- 1022" 1024] by simp
  then show ?thesis
    using pos E m by (simp add: round_double_def Let_def q_def [symmetric])
qed

section \<open>Arithmetic on Python numbers\<close>

lemma round_double_numeral:
  "numeral n < (2::int) ^ 53 \<Longrightarrow> round_double (numeral n) = Fin (numeral n)"
  using round_double_int [of "numeral n"] by simp

lemma round_double_one: "round_double 1 = Fin 1"
  using round_double_int [of 1] by simp

lemma round_double_cases:
  assumes "q \<noteq> 0"
  shows "\<exists>v. 0 \<le> v \<and>
           round_double q =
             (if pow2 1024 \<le> v then (if 0 < q then PInf else NInf)
              else Fin (if 0 < q then v else - v))"
proof -
  define E where "E = max (ilog2 \<bar>q\<bar> - 52) (- 1074)"
  define v where "v = of_int (round_half_even (\<bar>q\<bar> / pow2 E)) * pow2 E"
  have "(of_int 0 :: rat) \<le> \<bar>q\<bar> / pow2 E"
    using pow2_pos [of E] by simp
  then have "0 \<le> round_half_even (\<bar>q\<bar> / pow2 E)"
    by (rule round_half_even_ge)
  then have "0 \<le> v"
    using pow2_pos [of E] by (simp add: v_def)
  moreover have "round_double q =
      (if pow2 1024 \<le> v then (if 0 < q then PInf else NInf) else Fin (if 0 < q then v else - v))"
    using assms by (simp add: round_double_def Let_def E_def v_def)
  ultimately show ?thesis
    by blast
qed

lemma round_double_Fin_less:
  assumes "round_double q = Fin r"
  shows "\<bar>r\<bar> < pow2 1024"
proof (cases "q = 0")
  case True
  with assms pow2_pos [of 1024] show ?thesis
    by (simp add: round_double_def)
next
  case False
  from round_double_cases [OF False] assms obtain v
    where "0 \<le> v" "v < pow2 1024" "r = v \<or> r = - v"
    by (auto split: if_splits)
  then show ?thesis
    by auto
qed



lemma round_double_finite:
  assumes "0 < q" "q < pow2 1023"
  shows "\<exists>r. round_double q = Fin r \<and> 0 \<le> r"
proof -
  define e where "e = ilog2 q"
  from ilog2_bounds [OF assms(1)] have lo: "pow2 e \<le> q" and hi: "q < pow2 (e + 1)"
    by (simp_all add: e_def)
  have "pow2 e < pow2 1023"
    using lo assms(2) by simp
  then have e: "e < 1023"
    by (rule pow2_less_exp)
  define E where "E = max (e - 52) (- 1074)"
  define m where "m = round_half_even (q / pow2 E)"
  have Epos: "0 < pow2 E"
    by (rule pow2_pos)
  have E970: "pow2 E \<le> pow2 970"
    using e by (intro pow2_mono) (simp add: E_def)
  have "(of_int 0 :: rat) \<le> q / pow2 E"
    using assms(1) Epos by simp
  then have m0: "0 \<le> m"
    unfolding m_def by (rule round_half_even_ge)
  have "\<bar>of_int m - q / pow2 E\<bar> \<le> 1 / 2"
    unfolding m_def by (rule round_half_even_error)
  then have "of_int m \<le> q / pow2 E + 1 / 2"
    by linarith
  then have "of_int m * pow2 E \<le> (q / pow2 E + 1 / 2) * pow2 E"
    using Epos by (intro mult_right_mono) auto
  also have "\<dots> = q + pow2 E / 2"
    using Epos by (simp add: field_simps)
  also have "\<dots> \<le> q + pow2 970"
    using E970 Epos by simp
  also have "\<dots> < pow2 1023 + pow2 1023"
    using assms(2) pow2_mono [of 970 1023] by simp
  also have "\<dots> = pow2 1024"
    using pow2_Suc [of 1023] by simp
  finally have fin: "\<not> pow2 1024 \<le> of_int m * pow2 E" 
    by simp
  have "round_double q = Fin (of_int m * pow2 E)"
    using assms(1) fin by (simp add: round_double_def Let_def e_def E_def m_def)
  moreover have "0 \<le> of_int m * pow2 E"
    using m0 Epos by simp
  ultimately show ?thesis
    by blast
qed

lemma round_double_uminus:
  "round_double (- q) =
     (case round_double q of Fin r \<Rightarrow> Fin (- r) | PInf \<Rightarrow> NInf | NInf \<Rightarrow> PInf | NaN \<Rightarrow> NaN)"
  by (simp add: round_double_def Let_def)

lemma round_double_total_small:
  assumes "\<bar>q\<bar> < pow2 1023"
  shows "\<exists>r. round_double q = Fin r"
proof -
  consider "q = 0" | "0 < q" | "q < 0"
    by linarith
  then show ?thesis
  proof cases
    case 1
    then show ?thesis
      by (simp add: round_double_def)
  next
    case 2
    with assms round_double_finite [of q] show ?thesis
      by auto
  next
    case 3
    with assms round_double_finite [of "- q"] obtain r where "round_double (- q) = Fin r"
      by auto
    then show ?thesis
      using round_double_uminus [of "- q"] by simp
  qed
qed

lemma round_double_lower:
  assumes "pow2 (- 1022) \<le> q"
  shows "round_double q = PInf \<or> (\<exists>r. round_double q = Fin r \<and> q - q * pow2 (- 53) \<le> r)"
proof (cases "q < pow2 1023")
  case True
  with round_double_bounds [OF assms] show ?thesis
    by blast
next
  case False
  have pos: "0 < q"
    using assms pow2_pos [of "- 1022"] by (rule less_le_trans [rotated])
  define e where "e = ilog2 q"
  from ilog2_bounds [OF pos] have lo: "pow2 e \<le> q" and hi: "q < pow2 (e + 1)"
    by (simp_all add: e_def)
  have "pow2 1023 < pow2 (e + 1)"
    using False hi by simp
  then have e: "1023 \<le> e"
    by (auto dest: pow2_less_exp)
  define E where "E = e - 52"
  define m where "m = round_half_even (q / pow2 E)"
  have Epos: "0 < pow2 E"
    by (rule pow2_pos)
  have "\<bar>of_int m - q / pow2 E\<bar> \<le> 1 / 2"
    unfolding m_def by (rule round_half_even_error)
  then have "q / pow2 E - 1 / 2 \<le> of_int m"
    by linarith
  then have "(q / pow2 E - 1 / 2) * pow2 E \<le> of_int m * pow2 E"
    using Epos by (intro mult_right_mono) auto
  moreover have "(q / pow2 E - 1 / 2) * pow2 E = q - pow2 E / 2"
    using Epos by (simp add: field_simps)
  moreover have "pow2 E / 2 = pow2 e * pow2 (- 53)"
  proof -
    have "pow2 E = pow2 (e + (- 53) + 1)"
      by (simp add: E_def)
    also have "\<dots> = 2 * (pow2 e * pow2 (- 53))"
      by (simp only: pow2_Suc pow2_add [of e "- 53"])
    finally show ?thesis
      by simp
  qed
  moreover have "pow2 e * pow2 (- 53) \<le> q * pow2 (- 53)"
    using lo pow2_pos [of "- 53"] by (intro mult_right_mono) auto
  ultimately have "q - q * pow2 (- 53) \<le> of_int m * pow2 E"
    by linarith
  then show ?thesis
    using round_double_pos [OF pos lo hi] e by (auto simp: m_def E_def)
qed

lemma float_of_int_exact:
  assumes "0 \<le> k" "k < 2 ^ 53"
  shows "float_of_int k = Inr (Fin (of_int k))"
proof (cases "k = 0")
  case True
  then show ?thesis
    by (simp add: float_of_int_def round_double_def)
next
  case False
  with assms round_double_int [of k] show ?thesis
    by (simp add: float_of_int_def)
qed

lemma float_of_int_numeral:
  "numeral n < (2::int) ^ 53 \<Longrightarrow> float_of_int (numeral n) = Inr (Fin (numeral n))"
  using float_of_int_exact [of "numeral n"] by simp

lemma float_of_int_20: "float_of_int 20 = Inr (Fin 20)"
  by (rule float_of_int_numeral) simp

lemma float_of_int_30: "float_of_int 30 = Inr (Fin 30)"
  by (rule float_of_int_numeral) simp

lemma float_of_int_finite:
  assumes "\<bar>of_int k :: rat\<bar> < pow2 1023"
  shows "\<exists>c. float_of_int k = Inr (Fin c)"
proof -
  from assms obtain c where c: "round_double (of_int k) = Fin c"
    using round_double_total_small by blast
  then show ?thesis
    by (simp add: float_of_int_def)
qed

lemma int64_below_pow2:
  assumes "\<bar>k\<bar> < 2 ^ 63"
  shows "\<bar>of_int k :: rat\<bar> < pow2 63"
proof -
  have "\<bar>of_int k :: rat\<bar> = of_int \<bar>k\<bar>"
    by simp
  also have "\<dots> < of_int (2 ^ 63)"
    using assms by (simp only: of_int_less_iff)
  also have "\<dots> = pow2 63"
    by (simp add: pow2_nat)
  finally show ?thesis .
qed

lemma float_of_int_bounded:
  assumes "\<bar>k\<bar> < 2 ^ 63"
  shows "\<exists>c. float_of_int k = Inr (Fin c) \<and> \<bar>c\<bar> < pow2 64"
proof (cases "k = 0")
  case True
  then show ?thesis
    using pow2_pos [of 64] by (simp add: float_of_int_def round_double_def)
next
  case False
  have lt: "\<bar>of_int k :: rat\<bar> < pow2 63"
    using assms by (rule int64_below_pow2)
  have sym: "\<exists>c. round_double (of_int j) = Fin c \<and> \<bar>c\<bar> < pow2 64"
    if j: "0 < j" "(of_int j :: rat) < pow2 63" for j :: int
  proof -
    have one: "pow2 (- 1022) \<le> (of_int j :: rat)"
    proof -
      have "pow2 (- 1022) \<le> pow2 0"
        by (rule pow2_mono) simp
      also have "\<dots> \<le> of_int j"
        using j(1) by (simp add: pow2_0)
      finally show ?thesis .
    qed
    have "(of_int j :: rat) < pow2 1023"
      using j(2) pow2_mono [of 63 1023] by simp
    from round_double_bounds [OF one this] obtain c
      where c: "round_double (of_int j) = Fin c" "of_int j - of_int j * pow2 (- 53) \<le> c"
        "c \<le> of_int j + of_int j * pow2 (- 53)"
      by blast
    have p53: "pow2 (- 53) \<le> 1"
      using pow2_mono [of "- 53" 0] by (simp add: pow2_0)
    have j0: "0 \<le> (of_int j :: rat)"
      using j(1) by simp
    have err: "(of_int j :: rat) * pow2 (- 53) \<le> of_int j * 1"
      using p53 j0 by (rule mult_left_mono)
    have c0: "0 \<le> c"
      using c(2) err by simp
    have "c < pow2 63 + pow2 63"
      using c(3) err j(2) by simp
    also have "\<dots> = pow2 64"
      using pow2_Suc [of 63] by simp
    finally show ?thesis
      using c(1) c0 by auto
  qed
  show ?thesis
  proof (cases "0 < k")
    case True
    with sym [of k] lt show ?thesis
      by (auto simp: float_of_int_def)
  next
    case neg: False
    with False have "0 < - k" "(of_int (- k) :: rat) < pow2 63"
      using lt by auto
    from sym [OF this] obtain c where "round_double (of_int (- k)) = Fin c" "\<bar>c\<bar> < pow2 64"
      by blast
    then show ?thesis
      using round_double_uminus [of "of_int (- k)"] by (auto simp: float_of_int_def)
  qed
qed

lemma trunc_clamp:
  "min (max (if 0 \<le> q then \<lfloor>q\<rfloor> else \<lceil>q\<rceil>) 3) 6 = max 3 (min 6 \<lfloor>q::rat\<rfloor>)"
proof (cases "0 \<le> q")
  case True
  then show ?thesis by auto
next
  case False
  then have "\<lceil>q\<rceil> \<le> 0" "\<lfloor>q\<rfloor> \<le> 0"
    by (simp_all add: ceiling_le_iff floor_le_iff)
  then show ?thesis
    using False by auto
qed

lemma int_of_rounded:
  assumes "pow2 (- 1022) \<le> q" "q < pow2 1023"
    and "of_int k \<le> q - q * pow2 (- 53)" "q + q * pow2 (- 53) < of_int k + 1" "0 \<le> k"
  shows "\<exists>r. round_double q = Fin r \<and> py_int (PyFloat (Fin r)) = Inr k \<and> \<lfloor>r\<rfloor> = k"
proof -
  from round_double_bounds [OF assms(1,2)] obtain r
    where r: "round_double q = Fin r" "q - q * pow2 (- 53) \<le> r" "r \<le> q + q * pow2 (- 53)"
    by blast
  then have "of_int k \<le> r" "r < of_int k + 1"
    using assms(3,4) by linarith+
  then have "\<lfloor>r\<rfloor> = k" "0 \<le> r"
    using assms(5) by (auto simp: floor_eq_iff intro: order_trans [of 0 "of_int k"])
  with r(1) show ?thesis
    by simp
qed

section \<open>Evaluating the arithmetic of the pipeline\<close>

lemma int_of_rounded_margin:
  assumes "1 / 1024 \<le> q" "q \<le> 1024"
    and "of_int k + 1 / 1024 \<le> q" "q + 1 / 1024 \<le> of_int k + 1" "0 \<le> k"
  shows "\<exists>r. round_double q = Fin r \<and> py_int (PyFloat (Fin r)) = Inr k \<and> \<lfloor>r\<rfloor> = k"
proof -
  have p10: "pow2 (- 10) = 1 / 1024" "pow2 10 = 1024"
    by (simp_all add: pow2_def)
  have lo: "pow2 (- 1022) \<le> q"
    using pow2_mono [of "- 1022" "- 10"] assms(1) p10 by simp
  have "q \<le> pow2 10"
    using assms(2) p10 by simp
  also have "\<dots> < pow2 11"
    using pow2_Suc [of 10] pow2_pos [of 10] by simp
  also have "\<dots> \<le> pow2 1023"
    by (rule pow2_mono) simp
  finally have hi: "q < pow2 1023" .
  have "q * pow2 (- 53) \<le> pow2 10 * pow2 (- 53)"
    using assms(2) pow2_pos [of "- 53"] p10 by (intro mult_right_mono) auto
  also have "\<dots> = pow2 (- 43)"
    using pow2_add [of 10 "- 53"] by simp
  also have "\<dots> < pow2 (- 10)"
    using pow2_mono [of "- 43" "- 11"] pow2_Suc [of "- 11"] pow2_pos [of "- 11"] by simp
  finally have err: "q * pow2 (- 53) < 1 / 1024"
    using p10 by simp
  have "of_int k \<le> q - q * pow2 (- 53)" "q + q * pow2 (- 53) < of_int k + 1"
    using err assms(3,4) by linarith+
  with lo hi assms(5) show ?thesis
    by (intro int_of_rounded)
qed

lemma py_range_3: "py_range 3 = [0, 1, 2]"
  by (simp add: py_range_def upt_rec)

lemma py_range_5: "py_range 5 = [0, 1, 2, 3, 4]"
  by (simp add: py_range_def upt_rec)

lemma py_range_6: "py_range 6 = [0, 1, 2, 3, 4, 5]"
  by (simp add: py_range_def upt_rec)

lemma compute_num_steps_eval:
  assumes "float_mul fps (Fin 20) = Fin d" "d \<noteq> 0" "float_of_int fc = Inr (Fin c)"
    and "round_double (c / d) = Fin q" "py_int (PyFloat (Fin q)) = Inr k"
  shows "compute_num_steps fps fc = Inr (min (max k 3) 6)"
  using assms float_of_int_20 by (simp add: compute_num_steps_def del: py_int.simps)

lemma float_mul_30_20: "float_mul (Fin 30) (Fin 20) = Fin 600"
  using round_double_int [of 600] by simp

lemma float_mul_25_20: "float_mul (Fin 25) (Fin 20) = Fin 500"
  using round_double_int [of 500] by simp

lemma compute_num_steps_30_90: "compute_num_steps (Fin 30) 90 = Inr 3"
proof -
  have c: "float_of_int 90 = Inr (Fin 90)"
    by (rule float_of_int_numeral) simp
  from int_of_rounded_margin [of "90 / 600" 0]
  obtain q where "round_double (90 / 600) = Fin q" "py_int (PyFloat (Fin q)) = Inr 0"
    by auto
  from compute_num_steps_eval [OF float_mul_30_20 _ c this] show ?thesis
    by simp
qed

lemma compute_num_steps_30_3000: "compute_num_steps (Fin 30) 3000 = Inr 5"
proof -
  have c: "float_of_int 3000 = Inr (Fin 3000)"
    by (rule float_of_int_numeral) simp
  have "round_double (3000 / 600) = Fin 5"
    using round_double_int [of 5] by simp
  moreover have "py_int (PyFloat (Fin 5)) = Inr 5"
    by simp
  ultimately show ?thesis
    using compute_num_steps_eval [OF float_mul_30_20 _ c, of 5 5] by simp
qed

lemma compute_num_steps_25_100: "compute_num_steps (Fin 25) 100 = Inr 3"
proof -
  have c: "float_of_int 100 = Inr (Fin 100)"
    by (rule float_of_int_numeral) simp
  from int_of_rounded_margin [of "100 / 500" 0]
  obtain q where "round_double (100 / 500) = Fin q" "py_int (PyFloat (Fin q)) = Inr 0"
    by auto
  from compute_num_steps_eval [OF float_mul_25_20 _ c this] show ?thesis
    by simp
qed

lemma sampling_plan_30_90: "sampling_plan (Fin 30) 90 = Inr [(0, 0), (1, 30), (2, 60)]"
  by (simp add: sampling_plan_def compute_num_steps_30_90 py_range_3)

lemma sampling_plan_30_3000:
  "sampling_plan (Fin 30) 3000 = Inr [(0, 0), (1, 600), (2, 1200), (3, 1800), (4, 2400)]"
  by (simp add: sampling_plan_def compute_num_steps_30_3000 py_range_5)

lemma sampling_plan_25_100: "sampling_plan (Fin 25) 100 = Inr [(0, 0), (1, 33), (2, 66)]"
  by (simp add: sampling_plan_def compute_num_steps_25_100 py_range_3)

text \<open>At the double nearest to 23.98 the product with 20 rounds to the double nearest to
  479.6, and 2398 divided by that rounds to 5 exactly, although the exact quotient is below
  5.\<close>

lemma film_rate_times_20:
  "float_mul film_rate (Fin 20) = Fin (4218606213450957 / 8796093022208)"
  using round_double_value [of "6749769941521531 / 281474976710656 * 20" 8 8437212426901914]
  by (simp add: film_rate_def pow2_def)

lemma compute_num_steps_film_2398: "compute_num_steps film_rate 2398 = Inr 5"
proof -
  have c: "float_of_int 2398 = Inr (Fin 2398)"
    by (rule float_of_int_numeral) simp
  have "round_double (2398 / (4218606213450957 / 8796093022208)) = Fin 5"
    using round_double_value [of "2398 / (4218606213450957 / 8796093022208)" 2 5629499534213120]
    by (simp add: pow2_def)
  moreover have "py_int (PyFloat (Fin 5)) = Inr 5"
    by simp
  ultimately show ?thesis
    using compute_num_steps_eval [OF film_rate_times_20 _ c, of 5 5] by simp
qed

lemma sampling_plan_film_2398:
  "sampling_plan film_rate 2398 = Inr [(0, 0), (1, 479), (2, 958), (3, 1437), (4, 1916)]"
  by (simp add: sampling_plan_def compute_num_steps_film_2398 py_range_5)

lemma compute_num_steps_film_3597: "compute_num_steps film_rate 3597 = Inr 6"
proof -
  have c: "float_of_int 3597 = Inr (Fin 3597)"
    by (rule float_of_int_numeral) simp
  from int_of_rounded_margin [of "3597 / (4218606213450957 / 8796093022208)" 7]
  obtain q where "round_double (3597 / (4218606213450957 / 8796093022208)) = Fin q"
    "py_int (PyFloat (Fin q)) = Inr 7"
    by auto
  from compute_num_steps_eval [OF film_rate_times_20 _ c this] show ?thesis
    by simp
qed

lemma sampling_plan_film_3597:
  "sampling_plan film_rate 3597 =
     Inr [(0, 0), (1, 599), (2, 1198), (3, 1797), (4, 2396), (5, 2995)]"
  by (simp add: sampling_plan_def compute_num_steps_film_3597 py_range_6)

text \<open>At the smallest positive double the product with 20 is exact and the quotient
  overflows to infinity, which \<open>int\<close> refuses.\<close>

lemma tiny_rate_times_20: "float_mul tiny_rate (Fin 20) = Fin (20 * pow2 (- 1074))"
  using round_double_subnormal_exact [of 20] by (simp add: tiny_rate_def mult.commute)

lemma tiny_quotient_overflows: "0 < k \<Longrightarrow> pow2 1024 \<le> of_int k / (20 * pow2 (- 1074))"
proof -
  assume k: "0 < k"
  have "pow2 1024 * (20 * pow2 (- 1074)) = 20 * pow2 (- 50)"
    using pow2_add [of 1024 "- 1074"] by simp
  also have "\<dots> \<le> 20 * pow2 (- 5)"
    using pow2_mono [of "- 50" "- 5"] by simp
  also have "\<dots> \<le> 1"
    by (simp add: pow2_def)
  also have "\<dots> \<le> of_int k"
    using k by simp
  finally show ?thesis
    using pow2_pos [of "- 1074"] by (simp add: pos_le_divide_eq)
qed

lemma compute_num_steps_tiny:
  "compute_num_steps tiny_rate 90 =
     Inl (OverflowError ''cannot convert float infinity to integer'')"
proof -
  have c: "float_of_int 90 = Inr (Fin 90)"
    by (rule float_of_int_numeral) simp
  have "round_double (90 / (20 * pow2 (- 1074))) = PInf"
    using tiny_quotient_overflows [of 90] by (intro round_double_overflow) simp
  moreover have "20 * pow2 (- 1074) \<noteq> 0"
    using pow2_pos [of "- 1074"] by simp
  ultimately show ?thesis
    using c tiny_rate_times_20 float_of_int_20
    by (simp add: compute_num_steps_def tiny_rate_def)
qed

section \<open>Inputs for which no quotient overflows\<close>

lemma quotient_small:
  assumes "\<bar>c\<bar> < pow2 64" "pow2 (- 900) \<le> d"
  shows "\<bar>c / d\<bar> < pow2 1023"
proof -
  have d: "0 < d"
    using assms(2) pow2_pos [of "- 900"] by (rule less_le_trans [rotated])
  have "\<bar>c / d\<bar> = \<bar>c\<bar> / d"
    using d by simp
  also have "\<dots> \<le> \<bar>c\<bar> / pow2 (- 900)"
    using assms(2) pow2_pos [of "- 900"] by (intro divide_left_mono) auto
  also have "\<dots> < pow2 64 / pow2 (- 900)"
    using assms(1) pow2_pos [of "- 900"] by (intro divide_strict_right_mono)
  also have "\<dots> = pow2 964"
    using pow2_diff [of 64 "- 900"] by simp
  also have "\<dots> \<le> pow2 1023"
    by (rule pow2_mono) simp
  finally show ?thesis .
qed

lemma thirtieth_small:
  assumes "\<bar>d\<bar> < pow2 1024"
  shows "\<bar>d / 30\<bar> < pow2 1023"
proof -
  have "\<bar>d / 30\<bar> = \<bar>d\<bar> / 30"
    by simp
  also have "\<dots> \<le> \<bar>d\<bar> / 2"
    by (intro divide_left_mono) auto
  also have "\<dots> < pow2 1024 / 2"
    using assms by simp
  also have "\<dots> = pow2 1023"
    using pow2_Suc [of 1023] by simp
  finally show ?thesis .
qed

lemma compute_num_steps_total:
  assumes "\<bar>fc\<bar> < 2 ^ 63" "pow2 (- 900) \<le> r"
  shows "\<exists>n. compute_num_steps (Fin r) fc = Inr n"
proof -
  from float_of_int_bounded [OF assms(1)] obtain c
    where c: "float_of_int fc = Inr (Fin c)" "\<bar>c\<bar> < pow2 64"
    by blast
  have r0: "0 < r"
    using assms(2) pow2_pos [of "- 900"] by (rule less_le_trans [rotated])
  have "pow2 (- 1022) \<le> pow2 (- 900)"
    by (rule pow2_mono) simp
  also have "\<dots> \<le> r"
    by (rule assms(2))
  also have "\<dots> \<le> r * 20"
    using r0 by simp
  finally have lo: "pow2 (- 1022) \<le> r * 20" .
  have m: "float_mul (Fin r) (Fin 20) = round_double (r * 20)"
    by simp
  from round_double_lower [OF lo] show ?thesis
  proof
    assume "round_double (r * 20) = PInf"
    then show ?thesis
      using c float_of_int_20 by (simp add: compute_num_steps_def)
  next
    assume "\<exists>d. round_double (r * 20) = Fin d \<and> r * 20 - r * 20 * pow2 (- 53) \<le> d"
    then obtain d where d: "round_double (r * 20) = Fin d" "r * 20 - r * 20 * pow2 (- 53) \<le> d"
      by blast
    have "pow2 (- 53) \<le> pow2 (- 1)"
      by (rule pow2_mono) simp
    also have "\<dots> = 1 / 2"
      by (simp add: pow2_def)
    finally have "r * 20 * pow2 (- 53) \<le> r * 20 * (1 / 2)"
      using r0 by (intro mult_left_mono) auto
    then have "r * 20 * pow2 (- 53) \<le> r * 10"
      by simp
    with d(2) have "r * 10 \<le> d"
      by linarith
    with r0 have "r \<le> d"
      by linarith
    with assms(2) have dlo: "pow2 (- 900) \<le> d"
      by simp
    then have d0: "d \<noteq> 0"
      using pow2_pos [of "- 900"] by auto
    from quotient_small [OF c(2) dlo] obtain q where "round_double (c / d) = Fin q"
      using round_double_total_small by blast
    then show ?thesis
      using c d d0 float_of_int_20 by (simp add: compute_num_steps_def)
  qed
qed

section \<open>Step synthesis\<close>

lemma length_step_templates: "length step_templates = 6"
  by (simp add: step_templates_def)

lemma py_getitem_in_range:
  "0 \<le> i \<Longrightarrow> i < int (length xs) \<Longrightarrow> py_getitem xs i = Inr (xs ! nat i)"
  by (simp add: py_getitem_def)

lemma generate_step_nonneg:
  assumes "0 \<le> i"
  shows "generate_step_from_position i n p =
        Inr \<lparr>title = fst (step_templates ! nat (min i (int (length step_templates) - 1))),
             description = snd (step_templates ! nat (min i (int (length step_templates) - 1))),
             image_url = ''https://picsum.photos/id/'' @ str_int (10 + i) @ ''/800/400'',
             order = i + 1\<rparr>"
proof -
  have "py_getitem step_templates (min i (int (length step_templates) - 1)) =
          Inr (step_templates ! nat (min i (int (length step_templates) - 1)))"
    using assms length_step_templates by (intro py_getitem_in_range) auto
  then show ?thesis
    by (simp add: generate_step_from_position_def Let_def)
qed

text \<open>
  Claim C7.  For every ordinal index \<open>i \<ge> 0\<close> and every total step count \<open>n\<close>, step synthesis
  takes the template at index \<open>min i (pool_size - 1)\<close> of the fixed pool of six templates;
  for \<open>i \<ge> pool_size - 1\<close> that is the last template, whatever \<open>n\<close> is; and the whole record
  is the same for any two values of \<open>n\<close> and of the keyframe path, so it depends on \<open>i\<close> alone.
\<close>

theorem synthesize_selects_min_template:
  "length step_templates = 6 \<and>
   (0 \<le> i \<longrightarrow>
      generate_step_from_position i n p =
        Inr \<lparr>title = fst (step_templates ! nat (min i (int (length step_templates) - 1))),
             description = snd (step_templates ! nat (min i (int (length step_templates) - 1))),
             image_url = ''https://picsum.photos/id/'' @ str_int (10 + i) @ ''/800/400'',
             order = i + 1\<rparr>) \<and>
   (int (length step_templates) - 1 \<le> i \<longrightarrow>
      (\<exists>s. generate_step_from_position i n p = Inr s \<and>
           title s = fst (last step_templates) \<and>
           description s = snd (last step_templates))) \<and>
   generate_step_from_position i n p = generate_step_from_position i n' p'"
proof -
  have len: "length step_templates = 6"
    by (rule length_step_templates)
  have lst: "\<exists>s. generate_step_from_position i n p = Inr s \<and>
           title s = fst (last step_templates) \<and>
           description s = snd (last step_templates)"
    if "int (length step_templates) - 1 \<le> i"
  proof -
    from that len have i: "0 \<le> i" "min i (int (length step_templates) - 1) = 5"
      by auto
    have "last step_templates = step_templates ! 5"
      using len by (simp add: last_conv_nth step_templates_def)
    then show ?thesis
      using generate_step_nonneg [OF i(1)] i(2) by simp
  qed
  have indep: "generate_step_from_position i n p = generate_step_from_position i n' p'"
    by (simp add: generate_step_from_position_def)
  from len generate_step_nonneg lst indep show ?thesis
    by blast
qed

theorem synthesize_selects_min_template_witness:
  "generate_step_from_position 7 8 ''/tmp/x/keyframe_1_7.jpg'' =
     Inr \<lparr>title = ''Quality Control and Finishing'',
          description = ''Perform final quality control checks and apply any finishing touches. Clean up your workspace and properly store any remaining materials.'',
          image_url = ''https://picsum.photos/id/17/800/400'',
          order = 8\<rparr>"
proof -
  have ev: "str_int 17 = ''17''"
    by (simp add: str_int_def str_nat.simps digit_char_def)
  have "(0::int) \<le> 7"
    by simp
  with synthesize_selects_min_template [of 7 8 "''/tmp/x/keyframe_1_7.jpg''"]
  have "generate_step_from_position 7 8 ''/tmp/x/keyframe_1_7.jpg'' =
        Inr \<lparr>title = fst (step_templates ! nat (min 7 (int (length step_templates) - 1))),
             description = snd (step_templates ! nat (min 7 (int (length step_templates) - 1))),
             image_url = ''https://picsum.photos/id/'' @ str_int (10 + 7) @ ''/800/400'',
             order = 7 + 1\<rparr>"
    by blast
  then show ?thesis
    using ev by (simp add: step_templates_def)
qed

section \<open>The mock generator and the handler\<close>

lemma length_py_range: "length (py_range n) = nat n"
  by (simp add: py_range_def)

lemma nth_py_range: "i < nat n \<Longrightarrow> py_range n ! i = int i"
  by (simp add: py_range_def)

lemma generate_step_position:
  "0 \<le> i \<Longrightarrow> generate_step_from_position i n p = Inr (position_step i)"
  using generate_step_nonneg [of i n p] length_step_templates by (simp add: position_step_def)

lemma set_py_range: "set (py_range n) = {i. 0 \<le> i \<and> i < n}"
proof -
  have "i \<in> int ` {0..<nat n} \<longleftrightarrow> 0 \<le> i \<and> i < n" for i
  proof
    assume "i \<in> int ` {0..<nat n}"
    then show "0 \<le> i \<and> i < n"
      by auto
  next
    assume "0 \<le> i \<and> i < n"
    then have "nat i \<in> {0..<nat n}" "i = int (nat i)"
      by auto
    then show "i \<in> int ` {0..<nat n}"
      by blast
  qed
  then show ?thesis
    by (auto simp: py_range_def)
qed

lemma comprehension_map:
  "(\<And>x. x \<in> set xs \<Longrightarrow> f x = Inr (g x)) \<Longrightarrow> comprehension f xs = Inr (map g xs)"
  by (induction xs) auto

lemma mock_step_record:
  assumes "0 \<le> i" "i < 6"
  shows "mock_step i = Inr (mock_record i)"
proof -
  have "length step_titles = 6" "length step_descriptions = 6"
    by (simp_all add: step_titles_def step_descriptions_def)
  then show ?thesis
    using assms by (simp add: mock_step_def mock_record_def py_getitem_in_range)
qed

lemma mock_comprehension:
  "comprehension mock_step (py_range (min (max k 3) 6)) =
     Inr (map mock_record (py_range (min (max k 3) 6)))"
proof -
  have "mock_step i = Inr (mock_record i)" if "i \<in> set (py_range (min (max k 3) 6))" for i
    using that by (intro mock_step_record) (auto simp: set_py_range)
  then show ?thesis
    by (rule comprehension_map)
qed

lemma generate_mock_steps_of:
  "py_truediv d (PyInt 30) = Inr q \<Longrightarrow> py_int q = Inr k \<Longrightarrow>
   generate_mock_steps gid d = Inr (map mock_record (py_range (min (max k 3) 6)))"
  by (simp add: generate_mock_steps_def mock_comprehension)

lemma generate_mock_steps_Inr:
  assumes "generate_mock_steps gid d = Inr mock"
  shows "\<exists>q k. py_truediv d (PyInt 30) = Inr q \<and> py_int q = Inr k \<and>
           mock = map mock_record (py_range (min (max k 3) 6))"
proof (cases "py_truediv d (PyInt 30)")
  case (Inl e)
  with assms show ?thesis
    by (simp add: generate_mock_steps_def)
next
  case q: (Inr q)
  show ?thesis
  proof (cases "py_int q")
    case (Inl e)
    with assms q show ?thesis
      by (simp add: generate_mock_steps_def)
  next
    case (Inr k)
    with assms q generate_mock_steps_of [OF q Inr, of gid] show ?thesis
      by simp
  qed
qed

lemma generate_mock_steps_60:
  "generate_mock_steps gid (PyInt 60) = Inr [mock_record 0, mock_record 1, mock_record 2]"
proof -
  have "round_double (60 / 30) = Fin 2"
    using round_double_int [of 2] by simp
  then have "py_truediv (PyInt 60) (PyInt 30) = Inr (PyFloat (Fin 2))"
    by simp
  moreover have "py_int (PyFloat (Fin 2)) = Inr 2"
    by simp
  ultimately have "generate_mock_steps gid (PyInt 60) =
      Inr (map mock_record (py_range (min (max 2 3) 6)))"
    by (rule generate_mock_steps_of)
  then show ?thesis
    by (simp add: py_range_3)
qed

lemma float_gt_zero_nonzero: "float_gt_zero fps \<Longrightarrow> fps \<noteq> Fin 0"
  by auto

lemma truediv_by_30:
  "py_truediv (PyFloat d) (PyInt 30) = Inr (PyFloat (float_div d (Fin 30)))"
  by (simp add: float_of_int_30)

lemma fallback_nonpos:
  "\<not> float_gt_zero fps \<Longrightarrow>
   fallback gid fps fc = Inr [mock_record 0, mock_record 1, mock_record 2]"
  by (simp add: fallback_def generate_mock_steps_60)

lemma fallback_pos:
  assumes "float_gt_zero fps" "float_of_int fc = Inr c"
    and "float_div (float_div c fps) (Fin 30) = Fin q"
  shows "fallback gid fps fc = Inr (map mock_record (py_range (max 3 (min 6 \<lfloor>q\<rfloor>))))"
proof -
  have "py_truediv (PyInt fc) (PyFloat fps) = Inr (PyFloat (float_div c fps))"
    using assms(1,2) float_gt_zero_nonzero by simp
  moreover have "generate_mock_steps gid (PyFloat (float_div c fps)) =
      Inr (map mock_record (py_range (min (max (if 0 \<le> q then \<lfloor>q\<rfloor> else \<lceil>q\<rceil>) 3) 6)))"
    using assms(3)
      generate_mock_steps_of [of "PyFloat (float_div c fps)" "PyFloat (Fin q)"
        "if 0 \<le> q then \<lfloor>q\<rfloor> else \<lceil>q\<rceil>" gid]
    by (simp add: float_of_int_30)
  ultimately show ?thesis
    using assms(1) by (simp add: fallback_def trunc_clamp)
qed

lemma fallback_Inr:
  assumes "fallback gid fps fc = Inr mock"
  shows "\<exists>m. 3 \<le> m \<and> m \<le> 6 \<and> mock = map mock_record (py_range m)"
proof -
  from assms obtain d where "generate_mock_steps gid d = Inr mock"
    by (auto simp: fallback_def split: if_splits sum.splits)
  from generate_mock_steps_Inr [OF this] obtain k
    where "mock = map mock_record (py_range (min (max k 3) 6))"
    by blast
  then show ?thesis
    by (intro exI [of _ "min (max k 3) 6"]) auto
qed

lemma fallback_pos_Inr:
  assumes "fallback gid fps fc = Inr mock" "float_gt_zero fps"
  shows "\<exists>c q. float_of_int fc = Inr c \<and> float_div (float_div c fps) (Fin 30) = Fin q \<and>
           mock = map mock_record (py_range (max 3 (min 6 \<lfloor>q\<rfloor>)))"
proof -
  from assms obtain c where c: "float_of_int fc = Inr c"
    using float_gt_zero_nonzero
    by (cases "float_of_int fc") (auto simp: fallback_def)
  then have t: "py_truediv (PyInt fc) (PyFloat fps) = Inr (PyFloat (float_div c fps))"
    using assms(2) float_gt_zero_nonzero by simp
  with assms have g: "generate_mock_steps gid (PyFloat (float_div c fps)) = Inr mock"
    by (simp add: fallback_def)
  from generate_mock_steps_Inr [OF g] obtain k
    where k: "py_int (PyFloat (float_div (float_div c fps) (Fin 30))) = Inr k"
    by (auto simp: float_of_int_30)
  then obtain q where q: "float_div (float_div c fps) (Fin 30) = Fin q"
    by (cases "float_div (float_div c fps) (Fin 30)") auto
  from fallback_pos [OF assms(2) c q, of gid] assms(1) c q show ?thesis
    by auto
qed

lemma fallback_total:
  assumes "\<bar>fc\<bar> < 2 ^ 63" "ordinary_rate fps"
  shows "\<exists>mock. fallback gid fps fc = Inr mock"
proof (cases "float_gt_zero fps")
  case False
  then show ?thesis
    by (simp add: fallback_nonpos)
next
  case True
  from float_of_int_bounded [OF assms(1)] obtain c
    where c: "float_of_int fc = Inr (Fin c)" "\<bar>c\<bar> < pow2 64"
    by blast
  have "\<exists>q. float_div (float_div (Fin c) fps) (Fin 30) = Fin q"
  proof (cases fps)
    case (Fin r)
    with True assms(2) have r: "pow2 (- 900) \<le> r"
      by (auto simp: ordinary_rate_def)
    from quotient_small [OF c(2) r] obtain d where d: "round_double (c / r) = Fin d"
      using round_double_total_small by blast
    from thirtieth_small [OF round_double_Fin_less [OF d]] obtain q
      where "round_double (d / 30) = Fin q"
      using round_double_total_small by blast
    with d Fin show ?thesis
      by simp
  next
    case PInf
    then show ?thesis
      by (simp add: round_double_def)
  next
    case NInf
    with True show ?thesis
      by simp
  next
    case NaN
    with True show ?thesis
      by simp
  qed
  then obtain q where "float_div (float_div (Fin c) fps) (Fin 30) = Fin q"
    by blast
  from fallback_pos [OF True c(1) this, of gid] show ?thesis
    by blast
qed

lemma logged_duration_total:
  assumes "\<bar>fc\<bar> < 2 ^ 63"
  shows "\<exists>d. logged_duration fps fc = Inr d"
proof -
  from float_of_int_bounded [OF assms] obtain c where "float_of_int fc = Inr (Fin c)"
    by blast
  then show ?thesis
    using float_gt_zero_nonzero by (simp add: logged_duration_def)
qed

lemma logged_duration_of_plan:
  assumes "compute_num_steps fps fc = Inr n"
  shows "\<exists>d. logged_duration fps fc = Inr d"
proof -
  from assms obtain c where "float_of_int fc = Inr c"
    by (cases "float_of_int fc")
      (auto simp: compute_num_steps_def float_of_int_20 split: sum.splits if_splits)
  then show ?thesis
    using float_gt_zero_nonzero by (simp add: logged_duration_def)
qed

section \<open>The sampling loop\<close>

lemma loop_body_raises:
  "sample_raises cap (snd s) \<Longrightarrow> \<exists>e. loop_body self cap gid n s locals fs = (Inl e, fs)"
  by (auto simp: sample_raises_def loop_body_def Let_def split: read_result.splits sum.splits)

lemma loop_body_no_frame:
  "\<not> sample_raises cap (snd s) \<Longrightarrow> \<not> frame_decoded cap (snd s) \<Longrightarrow>
   loop_body self cap gid n s locals fs = (Inr locals, fs)"
  by (auto simp: sample_raises_def frame_decoded_def loop_body_def Let_def
      split: read_result.splits sum.splits)

lemma loop_body_frame:
  "\<not> sample_raises cap (snd s) \<Longrightarrow> frame_decoded cap (snd s) \<Longrightarrow> 0 \<le> fst s \<Longrightarrow>
   \<exists>img. loop_body self cap gid n s locals fs =
     (Inr (fst locals @ [position_step (fst s)], snd locals @ [keyframe_file self gid (fst s)]),
      fs(keyframe_file self gid (fst s) \<mapsto> ImageData img))"
  by (auto simp: sample_raises_def frame_decoded_def loop_body_def Let_def generate_step_position
      split: read_result.splits sum.splits)



lemma sample_loop_no_raise:
  assumes "\<forall>s\<in>set ss. 0 \<le> fst s \<and> \<not> sample_raises cap (snd s)"
  shows "fst (sample_loop self cap gid n ss locals fs) =
           Inr (fst locals @ map (\<lambda>s. position_step (fst s))
                               (filter (\<lambda>s. frame_decoded cap (snd s)) ss),
                snd locals @ map (\<lambda>s. keyframe_file self gid (fst s))
                               (filter (\<lambda>s. frame_decoded cap (snd s)) ss))"
  using assms
proof (induction ss arbitrary: locals fs)
  case Nil
  then show ?case by simp
next
  case (Cons s rest)
  then have s: "0 \<le> fst s" "\<not> sample_raises cap (snd s)"
    and rest: "\<forall>s\<in>set rest. 0 \<le> fst s \<and> \<not> sample_raises cap (snd s)"
    by auto
  show ?case
  proof (cases "frame_decoded cap (snd s)")
    case True
    from loop_body_frame [OF s(2) True s(1), of self gid n locals fs]
    obtain img where "loop_body self cap gid n s locals fs =
        (Inr (fst locals @ [position_step (fst s)], snd locals @ [keyframe_file self gid (fst s)]),
         fs(keyframe_file self gid (fst s) \<mapsto> ImageData img))"
      by blast
    then show ?thesis
      using True Cons.IH [OF rest] by simp
  next
    case False
    then show ?thesis
      using loop_body_no_frame [OF s(2) False, of self gid n locals fs] Cons.IH [OF rest]
      by simp
  qed
qed

lemma sample_loop_raise:
  assumes "\<exists>s\<in>set ss. sample_raises cap (snd s)" "\<forall>s\<in>set ss. 0 \<le> fst s"
  shows "\<exists>e. fst (sample_loop self cap gid n ss locals fs) = Inl e"
  using assms
proof (induction ss arbitrary: locals fs)
  case Nil
  then show ?case by simp
next
  case (Cons s rest)
  show ?case
  proof (cases "sample_raises cap (snd s)")
    case True
    from loop_body_raises [OF True, of self gid n locals fs] show ?thesis
      by auto
  next
    case False
    with Cons.prems have ex: "\<exists>s\<in>set rest. sample_raises cap (snd s)"
      and nn: "\<forall>s\<in>set rest. 0 \<le> fst s" and s: "0 \<le> fst s"
      by auto
    show ?thesis
    proof (cases "frame_decoded cap (snd s)")
      case True
      from loop_body_frame [OF False True s, of self gid n locals fs]
      obtain img where "loop_body self cap gid n s locals fs =
        (Inr (fst locals @ [position_step (fst s)], snd locals @ [keyframe_file self gid (fst s)]),
         fs(keyframe_file self gid (fst s) \<mapsto> ImageData img))"
        by blast
      then show ?thesis
        using Cons.IH [OF ex nn] by simp
    next
      case nf: False
      then show ?thesis
        using loop_body_no_frame [OF False nf, of self gid n locals fs] Cons.IH [OF ex nn]
        by simp
    qed
  qed
qed

section \<open>Extraction with its fallback\<close>

lemma compute_num_steps_bounds:
  "compute_num_steps fps frame_count = Inr n \<Longrightarrow> 3 \<le> n \<and> n \<le> 6"
  by (auto simp: compute_num_steps_def split: sum.splits)

lemma sampling_plan_Inr:
  "sampling_plan fps fc = Inr plan \<Longrightarrow>
   \<exists>n. compute_num_steps fps fc = Inr n \<and> 3 \<le> n \<and> n \<le> 6 \<and>
       plan = map (\<lambda>i. (i, i * (fc div n))) (py_range n)"
  using compute_num_steps_bounds [of fps fc]
  by (auto simp: sampling_plan_def Let_def split: sum.splits)

lemma sampling_plan_of:
  "compute_num_steps fps fc = Inr n \<Longrightarrow>
   sampling_plan fps fc = Inr (map (\<lambda>i. (i, i * (fc div n))) (py_range n))"
  by (simp add: sampling_plan_def)

lemma sampling_plan_Inl:
  "compute_num_steps fps fc = Inl e \<Longrightarrow> sampling_plan fps fc = Inl e"
  by (simp add: sampling_plan_def)

lemma plan_ordinals_nonneg:
  "sampling_plan fps fc = Inr plan \<Longrightarrow> \<forall>s\<in>set plan. 0 \<le> fst s"
  by (auto dest!: sampling_plan_Inr simp: set_py_range)

lemma plan_length:
  "sampling_plan fps fc = Inr plan \<Longrightarrow> 3 \<le> length plan \<and> length plan \<le> 6"
  by (auto dest!: sampling_plan_Inr simp: length_py_range)

lemma extract_no_plan:
  "sampling_plan fps fc = Inl e \<Longrightarrow>
   extract_keyframes_and_generate_steps self cap fps fc gid fs = (fallback gid fps fc, fs)"
  by (simp add: extract_keyframes_and_generate_steps_def)

lemma extract_result:
  assumes "sampling_plan fps fc = Inr plan"
  shows "fst (extract_keyframes_and_generate_steps self cap fps fc gid fs) =
     (if \<exists>s\<in>set plan. sample_raises cap (snd s)
      then fallback gid fps fc
      else Inr (map (\<lambda>s. position_step (fst s)) (filter (\<lambda>s. frame_decoded cap (snd s)) plan)))"
proof (cases "\<exists>s\<in>set plan. sample_raises cap (snd s)")
  case True
  from sample_loop_raise [OF True plan_ordinals_nonneg [OF assms],
      of self gid "int (length plan)" "([], [])" fs]
  obtain e where "fst (sample_loop self cap gid (int (length plan)) plan ([], []) fs) = Inl e"
    by blast
  then show ?thesis
    using assms True
    by (auto simp: extract_keyframes_and_generate_steps_def split: prod.splits)
next
  case False
  with plan_ordinals_nonneg [OF assms]
  have "\<forall>s\<in>set plan. 0 \<le> fst s \<and> \<not> sample_raises cap (snd s)"
    by auto
  from sample_loop_no_raise [OF this, of self gid "int (length plan)" "([], [])" fs]
  show ?thesis
    using assms False
    by (auto simp: extract_keyframes_and_generate_steps_def split: prod.splits)
qed



lemma process_video_opened:
  "open_source env self path fs = (Inr cap, fs1) \<Longrightarrow>
   logged_duration (v_fps cap) (v_frame_count cap) = Inr d \<Longrightarrow>
   process_video env self path gid fs =
     extract_keyframes_and_generate_steps self cap (v_fps cap) (v_frame_count cap) gid fs1"
  by (simp add: process_video_def)

lemma process_video_not_opened:
  "open_source env self path fs = (Inl e, fs1) \<Longrightarrow> process_video env self path gid fs = (Inl e, fs1)"
  by (simp add: process_video_def)

lemma process_video_planned:
  assumes "open_source env self path fs = (Inr cap, fs1)"
    and "sampling_plan (v_fps cap) (v_frame_count cap) = Inr plan"
  shows "process_video env self path gid fs =
     extract_keyframes_and_generate_steps self cap (v_fps cap) (v_frame_count cap) gid fs1"
proof -
  from sampling_plan_Inr [OF assms(2)] obtain n
    where "compute_num_steps (v_fps cap) (v_frame_count cap) = Inr n"
    by blast
  from logged_duration_of_plan [OF this] obtain d
    where "logged_duration (v_fps cap) (v_frame_count cap) = Inr d"
    by blast
  with assms(1) show ?thesis
    by (rule process_video_opened)
qed

text \<open>The fixtures open as the captures they hold, and a path that is not a URL leaves the
  file system as it is.\<close>

lemma open_local:
  "\<not> startswith path ''http://'' \<Longrightarrow> \<not> startswith path ''https://'' \<Longrightarrow>
   fs path = Some (VideoData v) \<Longrightarrow> open_source env self path fs = (Inr v, fs)"
  by (simp add: open_source_def VideoCapture_def)

lemma float_of_int_90: "float_of_int 90 = Inr (Fin 90)"
  by (rule float_of_int_numeral) simp

lemma logged_duration_30_90: "\<exists>d. logged_duration (Fin 30) 90 = Inr d"
  by (simp add: logged_duration_def float_of_int_90)

lemma fallback_30_90:
  "fallback gid (Fin 30) 90 = Inr [mock_record 0, mock_record 1, mock_record 2]"
proof -
  have d: "round_double (90 / 30) = Fin 3"
    using round_double_int [of 3] by simp
  from int_of_rounded_margin [of "3 / 30" 0]
  obtain q where q: "round_double (3 / 30) = Fin q" "\<lfloor>q\<rfloor> = 0"
    by auto
  moreover have "float_div (float_div (Fin 90) (Fin 30)) (Fin 30) = Fin q"
    using d q(1) by simp
  ultimately show ?thesis
    using fallback_pos [of "Fin 30" 90 "Fin 90" q gid] float_of_int_90
    by (simp add: py_range_3)
qed

section \<open>The image encoder\<close>







lemma optimize_image_scaled:
  assumes "0 < shape_height fr" "0 < shape_width fr" "mw < shape_width fr"
    and "round_double (of_int mw / of_int (shape_width fr)) = Fin \<rho>"
    and "scaled_side (shape_width fr) (PyFloat (Fin \<rho>)) = Inr w'"
    and "scaled_side (shape_height fr) (PyFloat (Fin \<rho>)) = Inr h'"
  shows "optimize_image fr mw q =
           (if w' \<le> 0 \<or> h' \<le> 0 then Inl (Cv2Error ''resize: empty destination size'')
            else Inr \<lparr>img_width = w', img_height = h', img_quality = q\<rparr>)"
  using assms
  by (simp add: optimize_image_def cv2_cvtColor_def cv2_resize_def cv2_imencode_def)




text \<open>Three frames evaluated step by step: every intermediate double is given with its
  exponent and its 53-bit significand.\<close>

lemma scaled_side_value:
  assumes "float_of_int S = Inr (Fin s)" "round_double (s * \<rho>) = Fin v" "0 \<le> v" "\<lfloor>v\<rfloor> = k"
  shows "scaled_side S (PyFloat (Fin \<rho>)) = Inr k"
  using assms by (simp add: scaled_side_def)

lemma optimize_image_hd: 
  "optimize_image hd_frame 1200 80 = Inr \<lparr>img_width = 1200, img_height = 675, img_quality = 80\<rparr>"
proof -
  have rho: "round_double (of_int 1200 / of_int (shape_width hd_frame)) = Fin (15 / 16)"
    using round_double_exact [of "15 / 16" "- 1" 8444249301319680]
    by (simp add: hd_frame_def pow2_def)
  have fw: "float_of_int 1280 = Inr (Fin 1280)"
    by (rule float_of_int_numeral) simp
  have fh: "float_of_int 720 = Inr (Fin 720)"
    by (rule float_of_int_numeral) simp
  have vw: "round_double (1280 * (15 / 16)) = Fin 1200"
    using round_double_int [of 1200] by simp
  have vh: "round_double (720 * (15 / 16)) = Fin 675"
    using round_double_int [of 675] by simp
  have w: "scaled_side (shape_width hd_frame) (PyFloat (Fin (15 / 16))) = Inr 1200"
    unfolding hd_frame_def using scaled_side_value [OF fw vw, of 1200] by simp
  have h: "scaled_side (shape_height hd_frame) (PyFloat (Fin (15 / 16))) = Inr 675"
    unfolding hd_frame_def using scaled_side_value [OF fh vh, of 675] by simp
  from optimize_image_scaled [OF _ _ _ rho w h, of 80] show ?thesis
    by (simp add: hd_frame_def)
qed



lemma optimize_image_1392_1160:
  "optimize_image \<lparr>shape_height = 1160, shape_width = 1392\<rparr> 1200 80 =
     Inr \<lparr>img_width = 1200, img_height = 999, img_quality = 80\<rparr>"
proof -
  have rho: "round_double
      (of_int 1200 / of_int (shape_width \<lparr>shape_height = 1160, shape_width = 1392\<rparr>)) =
      Fin (3882413471871117 / 4503599627370496)"
    using round_double_value [of "1200 / 1392" "- 1" 7764826943742234]
    by (simp add: pow2_def)
  have fw: "float_of_int 1392 = Inr (Fin 1392)"
    by (rule float_of_int_numeral) simp
  have fh: "float_of_int 1160 = Inr (Fin 1160)"
    by (rule float_of_int_numeral) simp
  have vw: "round_double (1392 * (3882413471871117 / 4503599627370496)) = Fin 1200"
    using round_double_value [of "1392 * (3882413471871117 / 4503599627370496)" 10 5277655813324800]
    by (simp add: pow2_def)
  have vh: "round_double (1160 * (3882413471871117 / 4503599627370496)) =
      Fin (8796093022207999 / 8796093022208)"
    using round_double_value [of "1160 * (3882413471871117 / 4503599627370496)" 9 8796093022207999]
    by (simp add: pow2_def)
  have flh: "\<lfloor>8796093022207999 / 8796093022208 :: rat\<rfloor> = 999"
    by (simp add: floor_eq_iff)
  have w: "scaled_side (shape_width \<lparr>shape_height = 1160, shape_width = 1392\<rparr>)
             (PyFloat (Fin (3882413471871117 / 4503599627370496))) = Inr 1200"
    using scaled_side_value [OF fw vw, of 1200] by simp
  have h: "scaled_side (shape_height \<lparr>shape_height = 1160, shape_width = 1392\<rparr>)
             (PyFloat (Fin (3882413471871117 / 4503599627370496))) = Inr 999"
    using scaled_side_value [OF fh vh _ flh] by simp
  from optimize_image_scaled [OF _ _ _ rho w h, of 80] show ?thesis
    by simp
qed

section \<open>The sampling plan\<close>

lemma compute_num_steps_quotient:
  assumes "compute_num_steps (Fin r) fc = Inr n"
  shows "\<exists>c q. float_of_int fc = Inr c \<and>
           float_div c (float_mul (Fin r) (Fin 20)) = Fin q \<and>
           n = max 3 (min 6 \<lfloor>q\<rfloor>)"
proof -
  have m: "py_mul (PyFloat (Fin r)) (PyInt 20) = Inr (PyFloat (float_mul (Fin r) (Fin 20)))"
    by (simp add: float_of_int_20)
  from assms obtain c where c: "float_of_int fc = Inr c"
    by (cases "float_of_int fc") (auto simp: compute_num_steps_def float_of_int_20)
  from assms c have nz: "float_mul (Fin r) (Fin 20) \<noteq> Fin 0"
    by (auto simp: compute_num_steps_def float_of_int_20)
  from assms c nz obtain k
    where k: "py_int (PyFloat (float_div c (round_double (r * 20)))) = Inr k"
      and n: "n = min (max k 3) 6"
    by (auto simp: compute_num_steps_def float_of_int_20 split: sum.splits)
  then obtain q where q: "float_div c (round_double (r * 20)) = Fin q"
    by (cases "float_div c (round_double (r * 20))") auto
  with k n have "n = max 3 (min 6 \<lfloor>q\<rfloor>)"
    using trunc_clamp [of q] by auto
  with c q show ?thesis
    by simp
qed

lemma plan_shape:
  assumes "0 \<le> fc" "3 \<le> n"
  defines "plan \<equiv> map (\<lambda>i. (i, i * (fc div n))) (py_range n)"
  shows "int (length plan) = n"
    and "\<forall>i < length plan. plan ! i = (int i, int i * (fc div n))"
    and "map fst plan = map int [0..<length plan]"
    and "sorted_wrt (<) (map fst plan)"
    and "sorted (map snd plan)"
proof -
  show "int (length plan) = n"
    using assms(2) by (simp add: plan_def length_py_range)
  show "\<forall>i < length plan. plan ! i = (int i, int i * (fc div n))"
    by (simp add: plan_def length_py_range nth_py_range)
  show fsts: "map fst plan = map int [0..<length plan]"
    by (simp add: plan_def py_range_def comp_def)
  show "sorted_wrt (<) (map fst plan)"
    unfolding fsts by (simp add: sorted_wrt_map)
  have iv: "0 \<le> fc div n"
    using assms(1,2) by (simp add: pos_imp_zdiv_nonneg_iff)
  have snds: "map snd plan = map (\<lambda>i. int i * (fc div n)) [0..<length plan]"
    by (simp add: plan_def py_range_def comp_def)
  show "sorted (map snd plan)"
    unfolding snds using iv by (simp add: sorted_wrt_map sorted_wrt_iff_nth_less mult_right_mono)
qed

text \<open>
  Claim C2, as amended.  The quotient \<open>frame_count / (frame_rate * 20)\<close> is computed on
  doubles: the product is rounded, then the quotient is rounded.  For \<open>frame_count \<ge> 1\<close> and
  a finite \<open>frame_rate > 0\<close> for which the number of samples is computed, the plan has
  \<open>num_steps = max 3 (min 6 (floor q))\<close> entries where \<open>q\<close> is that double quotient, entry \<open>i\<close>
  is \<open>(i, i * (frame_count div num_steps))\<close>, there are between 3 and 6 entries, the ordinals
  are \<open>0, 1, 2, ...\<close> and the frame indices never decrease; and the extraction visits exactly
  the entries of the plan: when no sample raises, its result is the list of the steps
  synthesised at the ordinals of the entries whose frame is decoded.  The number of samples
  is computed for every frame count from 1 to below \<open>2 ^ 63\<close> and every frame rate of at least
  \<open>2 ^ -900\<close>.  A video of 3000 frames at 30 frames per second is sampled at frames 0, 600,
  1200, 1800 and 2400.
\<close>

theorem sampling_plan_shape:
  "(1 \<le> frame_count \<and> 0 < r \<and> compute_num_steps (Fin r) frame_count = Inr num_steps \<longrightarrow>
     (\<exists>plan c q.
        sampling_plan (Fin r) frame_count = Inr plan \<and>
        float_of_int frame_count = Inr c \<and>
        float_div c (float_mul (Fin r) (Fin 20)) = Fin q \<and>
        num_steps = max 3 (min 6 \<lfloor>q\<rfloor>) \<and>
        int (length plan) = num_steps \<and>
        3 \<le> length plan \<and> length plan \<le> 6 \<and>
        (\<forall>i < length plan. plan ! i = (int i, int i * (frame_count div num_steps))) \<and>
        map fst plan = map int [0..<length plan] \<and>
        sorted_wrt (<) (map fst plan) \<and>
        sorted (map snd plan) \<and>
        (\<forall>self cap guide_id fs.
           (\<forall>s\<in>set plan. \<not> sample_raises cap (snd s)) \<longrightarrow>
           fst (extract_keyframes_and_generate_steps self cap (Fin r) frame_count guide_id fs) =
             Inr (map (\<lambda>s. position_step (fst s))
                    (filter (\<lambda>s. frame_decoded cap (snd s)) plan))))) \<and>
   (1 \<le> frame_count \<and> frame_count < 2 ^ 63 \<and> pow2 (- 900) \<le> r \<longrightarrow>
      (\<exists>n. compute_num_steps (Fin r) frame_count = Inr n)) \<and>
   sampling_plan (Fin 30) 3000 = Inr [(0, 0), (1, 600), (2, 1200), (3, 1800), (4, 2400)]"
proof (intro conjI impI)
  assume h: "1 \<le> frame_count \<and> 0 < r \<and> compute_num_steps (Fin r) frame_count = Inr num_steps"
  define plan where "plan = map (\<lambda>i. (i, i * (frame_count div num_steps))) (py_range num_steps)"
  from h have ns: "compute_num_steps (Fin r) frame_count = Inr num_steps"
    by simp
  have bounds: "3 \<le> num_steps" "num_steps \<le> 6"
    using compute_num_steps_bounds [OF ns] by auto
  have sp: "sampling_plan (Fin r) frame_count = Inr plan"
    unfolding plan_def using ns by (rule sampling_plan_of)
  from compute_num_steps_quotient [OF ns] obtain c q
    where cq: "float_of_int frame_count = Inr c"
      "float_div c (float_mul (Fin r) (Fin 20)) = Fin q" "num_steps = max 3 (min 6 \<lfloor>q\<rfloor>)"
    by blast
  have fc: "0 \<le> frame_count"
    using h by simp
  note shape = plan_shape [OF fc bounds(1), folded plan_def]
  have len: "3 \<le> length plan" "length plan \<le> 6"
    using shape(1) bounds by auto
  have ex: "fst (extract_keyframes_and_generate_steps self cap (Fin r) frame_count guide_id fs) =
             Inr (map (\<lambda>s. position_step (fst s)) (filter (\<lambda>s. frame_decoded cap (snd s)) plan))"
    if "\<forall>s\<in>set plan. \<not> sample_raises cap (snd s)" for self cap guide_id fs
    using that extract_result [OF sp, of self cap guide_id fs] by simp
  show "\<exists>plan c q.
        sampling_plan (Fin r) frame_count = Inr plan \<and>
        float_of_int frame_count = Inr c \<and>
        float_div c (float_mul (Fin r) (Fin 20)) = Fin q \<and>
        num_steps = max 3 (min 6 \<lfloor>q\<rfloor>) \<and>
        int (length plan) = num_steps \<and>
        3 \<le> length plan \<and> length plan \<le> 6 \<and>
        (\<forall>i < length plan. plan ! i = (int i, int i * (frame_count div num_steps))) \<and>
        map fst plan = map int [0..<length plan] \<and>
        sorted_wrt (<) (map fst plan) \<and>
        sorted (map snd plan) \<and>
        (\<forall>self cap guide_id fs.
           (\<forall>s\<in>set plan. \<not> sample_raises cap (snd s)) \<longrightarrow>
           fst (extract_keyframes_and_generate_steps self cap (Fin r) frame_count guide_id fs) =
             Inr (map (\<lambda>s. position_step (fst s))
                    (filter (\<lambda>s. frame_decoded cap (snd s)) plan)))"
    using sp cq shape len ex by (intro exI [of _ plan] exI [of _ c] exI [of _ q]) blast
next
  assume "1 \<le> frame_count \<and> frame_count < 2 ^ 63 \<and> pow2 (- 900) \<le> r"
  then show "\<exists>n. compute_num_steps (Fin r) frame_count = Inr n"
    by (intro compute_num_steps_total) auto
next
  show "sampling_plan (Fin 30) 3000 = Inr [(0, 0), (1, 600), (2, 1200), (3, 1800), (4, 2400)]"
    by (rule sampling_plan_30_3000)
qed

text \<open>A clip of 90 frames at 30 frames per second whose reads all give a frame: the plan has
  the three entries at frames 0, 30 and 60, and the extraction returns the three steps
  synthesised at ordinals 0, 1 and 2.\<close>

theorem sampling_plan_shape_witness:
  "(1::int) \<le> 90 \<and> (0::rat) < 30 \<and> compute_num_steps (Fin 30) 90 = Inr 3 \<and>
   sampling_plan (Fin 30) 90 = Inr [(0, 0), (1, 30), (2, 60)] \<and>
   fst (extract_keyframes_and_generate_steps (VideoProcessor example_env) steady_video (Fin 30) 90 7
          example_fs) =
     Inr [position_step 0, position_step 1, position_step 2]"
proof -
  have ns: "compute_num_steps (Fin 30) 90 = Inr 3"
    by (rule compute_num_steps_30_90)
  have nr: "\<not> sample_raises steady_video n" for n
    by (simp add: sample_raises_def steady_video_def optimize_image_hd)
  have dec: "frame_decoded steady_video n" for n
    by (simp add: frame_decoded_def steady_video_def)
  from sampling_plan_shape [of 90 30 3] ns
  obtain plan where plan: "sampling_plan (Fin 30) 90 = Inr plan"
    "length plan = 3"
    "\<forall>i < length plan. plan ! i = (int i, int i * (90 div 3))"
    and ex: "\<forall>self cap guide_id fs.
           (\<forall>s\<in>set plan. \<not> sample_raises cap (snd s)) \<longrightarrow>
           fst (extract_keyframes_and_generate_steps self cap (Fin 30) 90 guide_id fs) =
             Inr (map (\<lambda>s. position_step (fst s))
                    (filter (\<lambda>s. frame_decoded cap (snd s)) plan))"
    by auto
  from plan(2,3) have "plan ! 0 = (0, 0)" "plan ! 1 = (1, 30)" "plan ! 2 = (2, 60)"
    by simp_all
  with plan(2) have p: "plan = [(0, 0), (1, 30), (2, 60)]"
    by (intro nth_equalityI) (auto simp: less_Suc_eq numeral_3_eq_3 numeral_2_eq_2)
  from ex nr have "fst (extract_keyframes_and_generate_steps (VideoProcessor example_env)
        steady_video (Fin 30) 90 7 example_fs) =
      Inr (map (\<lambda>s. position_step (fst s)) (filter (\<lambda>s. frame_decoded steady_video (snd s)) plan))"
    by blast
  with p dec plan(1) ns show ?thesis
    by simp
qed

text \<open>
  Claim C2 as stated fails.  At the frame rate 23.98 (the double nearest to it) a video of
  2398 frames has the exact quotient \<open>2398 / (23.98 * 20)\<close> just below 5, so the stated
  formula gives 4 samples, while the rounded quotient is 5.0 and the plan has 5 entries.  At
  the smallest positive frame rate the quotient overflows and there is no plan, although
  \<open>frame_count \<ge> 1\<close> and \<open>frame_rate > 0\<close>.
\<close>

theorem rounded_quotient_counterexample:
  "film_rate = Fin (6749769941521531 / 281474976710656) \<and>
   max 3 (min 6 \<lfloor>2398 / (6749769941521531 / 281474976710656 * 20 :: rat)\<rfloor>) = 4 \<and>
   sampling_plan film_rate 2398 = Inr [(0, 0), (1, 479), (2, 958), (3, 1437), (4, 1916)] \<and>
   tiny_rate = Fin (pow2 (- 1074)) \<and> 0 < pow2 (- 1074) \<and>
   sampling_plan tiny_rate 90 = Inl (OverflowError ''cannot convert float infinity to integer'')"
proof -
  have "\<lfloor>2398 / (6749769941521531 / 281474976710656 * 20 :: rat)\<rfloor> = 4"
    by (simp add: floor_eq_iff)
  then have "max 3 (min 6 \<lfloor>2398 / (6749769941521531 / 281474976710656 * 20 :: rat)\<rfloor>) = 4"
    by simp
  moreover have "sampling_plan tiny_rate 90 =
      Inl (OverflowError ''cannot convert float infinity to integer'')"
    using compute_num_steps_tiny by (rule sampling_plan_Inl)
  ultimately show ?thesis
    using sampling_plan_film_2398 pow2_pos [of "- 1074"]
    by (simp add: film_rate_def tiny_rate_def)
qed

section \<open>Dimensions of the encoded image\<close>




section \<open>The fallback to mock steps\<close>

lemma compute_num_steps_zero_rate:
  "compute_num_steps (Fin 0) fc =
     Inl (case float_of_int fc of Inl e \<Rightarrow> e
          | Inr c \<Rightarrow> ZeroDivisionError ''float division by zero'')"
  by (simp add: compute_num_steps_def float_of_int_20 round_double_def split: sum.splits)

lemma fallback_pos_Inl:
  assumes "float_gt_zero fps" "float_of_int fc = Inr c"
    and "\<forall>q. float_div (float_div c fps) (Fin 30) \<noteq> Fin q"
  shows "\<exists>e. fallback gid fps fc = Inl e"
proof (cases "fallback gid fps fc")
  case (Inl e)
  then show ?thesis
    by blast
next
  case (Inr mock)
  from fallback_pos_Inr [OF Inr assms(1)] assms(2,3) show ?thesis
    by auto
qed

lemma mock_range_urls:
  assumes "3 \<le> m" "m \<le> 6" "mock = map mock_record (py_range m)"
  shows "3 \<le> length mock \<and> length mock \<le> 6 \<and>
         (\<forall>k<length mock.
            image_url (mock ! k) = ''https://picsum.photos/id/'' @ str_int (20 + int k) @ ''/800/400'')"
  using assms by (auto simp: length_py_range nth_py_range mock_record_def)

text \<open>A clip of the examples with 90 frames at 30 frames per second, kept under a local path:
  what the pipeline returns for it.\<close>

lemma process_video_clip:
  assumes "fs path = Some (VideoData v)"
    and "\<not> startswith path ''http://''" "\<not> startswith path ''https://''"
    and "v_fps v = Fin 30" "v_frame_count v = 90"
  shows "fst (process_video env self path gid fs) =
     (if sample_raises v 0 \<or> sample_raises v 30 \<or> sample_raises v 60
      then Inr [mock_record 0, mock_record 1, mock_record 2]
      else Inr (map (\<lambda>s. position_step (fst s))
                  (filter (\<lambda>s. frame_decoded v (snd s)) [(0, 0), (1, 30), (2, 60)])))"
proof -
  have o: "open_source env self path fs = (Inr v, fs)"
    using assms(1-3) by (simp add: open_local)
  have sp: "sampling_plan (v_fps v) (v_frame_count v) = Inr [(0, 0), (1, 30), (2, 60)]"
    using assms(4,5) by (simp add: sampling_plan_30_90)
  have "process_video env self path gid fs =
      extract_keyframes_and_generate_steps self v (v_fps v) (v_frame_count v) gid fs"
    using o sp by (rule process_video_planned)
  then show ?thesis
    using extract_result [OF sp, of self v gid fs] assms(4,5) by (simp add: fallback_30_90)
qed

text \<open>
  Claim C4, as amended.  For a frame rate of 0 and any frame count, computing the number of
  samples raises, so there is no sampling plan and no frame is read: the error is
  \<open>ZeroDivisionError\<close> (for a frame count that converts to a float, as every count below
  \<open>2 ^ 63\<close> in magnitude does).  The handler absorbs the error and the extraction returns
  exactly the three mock records for the default duration of 60 seconds, with orders 1, 2
  and 3, and writes no file.
\<close>

theorem zero_frame_rate_falls_back:
  "sampling_plan (Fin 0) frame_count =
     Inl (case float_of_int frame_count of Inl e \<Rightarrow> e
          | Inr c \<Rightarrow> ZeroDivisionError ''float division by zero'') \<and>
   (\<bar>frame_count\<bar> < 2 ^ 63 \<longrightarrow>
      sampling_plan (Fin 0) frame_count = Inl (ZeroDivisionError ''float division by zero'')) \<and>
   extract_keyframes_and_generate_steps self cap (Fin 0) frame_count gid fs =
     (Inr [mock_record 0, mock_record 1, mock_record 2], fs) \<and>
   map order [mock_record 0, mock_record 1, mock_record 2] = [1, 2, 3]"
proof -
  have sp: "sampling_plan (Fin 0) frame_count =
     Inl (case float_of_int frame_count of Inl e \<Rightarrow> e
          | Inr c \<Rightarrow> ZeroDivisionError ''float division by zero'')"
    using compute_num_steps_zero_rate by (rule sampling_plan_Inl)
  have z: "sampling_plan (Fin 0) frame_count = Inl (ZeroDivisionError ''float division by zero'')"
    if "\<bar>frame_count\<bar> < 2 ^ 63"
    using float_of_int_bounded [OF that] sp by auto
  have "extract_keyframes_and_generate_steps self cap (Fin 0) frame_count gid fs =
      (fallback gid (Fin 0) frame_count, fs)"
    using sp by (rule extract_no_plan)
  then have ex: "extract_keyframes_and_generate_steps self cap (Fin 0) frame_count gid fs =
     (Inr [mock_record 0, mock_record 1, mock_record 2], fs)"
    by (simp add: fallback_nonpos)
  have "map order [mock_record 0, mock_record 1, mock_record 2] = [1, 2, 3]"
    by (simp add: mock_record_def)
  with sp z ex show ?thesis
    by blast
qed

theorem zero_frame_rate_falls_back_witness:
  "\<bar>3000::int\<bar> < 2 ^ 63 \<and>
   compute_num_steps (Fin 0) 3000 = Inl (ZeroDivisionError ''float division by zero'') \<and>
   extract_keyframes_and_generate_steps (VideoProcessor example_env) steady_video (Fin 0) 3000 7
       example_fs =
     (Inr [mock_record 0, mock_record 1, mock_record 2], example_fs)"
proof -
  have b: "\<bar>3000::int\<bar> < 2 ^ 63"
    by simp
  from zero_frame_rate_falls_back [of 3000 "VideoProcessor example_env" steady_video 7 example_fs] b
  have "sampling_plan (Fin 0) 3000 = Inl (ZeroDivisionError ''float division by zero'')"
    and ex: "extract_keyframes_and_generate_steps (VideoProcessor example_env) steady_video (Fin 0)
        3000 7 example_fs =
      (Inr [mock_record 0, mock_record 1, mock_record 2], example_fs)"
    by blast+
  then have "compute_num_steps (Fin 0) 3000 = Inl (ZeroDivisionError ''float division by zero'')"
    by (simp add: sampling_plan_def split: sum.splits)
  with ex b show ?thesis
    by blast
qed

text \<open>
  Claim C4 as stated fails: at frame rate 0 the plan for 3000 frames is not three entries
  at frame 0 but a \<open>ZeroDivisionError\<close>.
\<close>

theorem zero_frame_rate_plan_counterexample:
  "sampling_plan (Fin 0) 3000 = Inl (ZeroDivisionError ''float division by zero'')"
proof -
  have "float_of_int 3000 = Inr (Fin 3000)"
    by (rule float_of_int_numeral) simp
  then have "compute_num_steps (Fin 0) 3000 = Inl (ZeroDivisionError ''float division by zero'')"
    by (simp add: compute_num_steps_zero_rate)
  then show ?thesis
    by (rule sampling_plan_Inl)
qed

text \<open>
  Claim C1, as amended.  Take a source that opens, that has a sampling plan, and whose
  planned reads all fail to give a frame.  If every read fails by returning \<open>ret = False\<close>,
  each sample is skipped and the result is the empty list.  If one of the reads fails by
  raising, the handler runs.  For a frame rate that is not positive it returns the three
  mock records of the default duration.  For a positive frame rate it computes
  \<open>int(frame_count / fps / 30)\<close> on doubles: when that quotient \<open>q\<close> is finite the result is
  the list of \<open>max 3 (min 6 (floor q))\<close> mock records, and when it is not the conversion
  raises and the pipeline returns an error.  For a frame count below \<open>2 ^ 63\<close> in magnitude
  and a frame rate that is not a positive number below \<open>2 ^ -900\<close> the result is a mock list
  of between 3 and 6 records whose image references are the stock URLs numbered from 20.
\<close>

theorem undecodable_video_result:
  "open_source env self path fs = (Inr cap, fs1) \<and>
   sampling_plan (v_fps cap) (v_frame_count cap) = Inr plan \<and>
   (\<forall>(i, frame_number)\<in>set plan. \<not> frame_decoded cap frame_number) \<longrightarrow>
     (if \<exists>(i, frame_number)\<in>set plan. sample_raises cap frame_number
      then (\<not> float_gt_zero (v_fps cap) \<longrightarrow>
              fst (process_video env self path gid fs) =
                Inr [mock_record 0, mock_record 1, mock_record 2]) \<and>
           (float_gt_zero (v_fps cap) \<longrightarrow>
              (\<exists>c. float_of_int (v_frame_count cap) = Inr c \<and>
                 (\<forall>q. float_div (float_div c (v_fps cap)) (Fin 30) = Fin q \<longrightarrow>
                    fst (process_video env self path gid fs) =
                      Inr (map mock_record (py_range (max 3 (min 6 \<lfloor>q\<rfloor>))))) \<and>
                 ((\<forall>q. float_div (float_div c (v_fps cap)) (Fin 30) \<noteq> Fin q) \<longrightarrow>
                    (\<exists>e. fst (process_video env self path gid fs) = Inl e)))) \<and>
           (\<bar>v_frame_count cap\<bar> < 2 ^ 63 \<and> ordinary_rate (v_fps cap) \<longrightarrow>
              (\<exists>mock. fst (process_video env self path gid fs) = Inr mock \<and>
                 3 \<le> length mock \<and> length mock \<le> 6 \<and>
                 (\<forall>k<length mock.
                    image_url (mock ! k) =
                      ''https://picsum.photos/id/'' @ str_int (20 + int k) @ ''/800/400'')))
      else fst (process_video env self path gid fs) = Inr [])"
proof (intro impI)
  assume h: "open_source env self path fs = (Inr cap, fs1) \<and>
   sampling_plan (v_fps cap) (v_frame_count cap) = Inr plan \<and>
   (\<forall>(i, frame_number)\<in>set plan. \<not> frame_decoded cap frame_number)"
  define fps where "fps = v_fps cap"
  define fc where "fc = v_frame_count cap"
  define result where "result = fst (process_video env self path gid fs)"
  from h have o: "open_source env self path fs = (Inr cap, fs1)"
    and sp: "sampling_plan fps fc = Inr plan"
    and nd: "\<forall>s\<in>set plan. \<not> frame_decoded cap (snd s)"
    by (auto simp: fps_def fc_def)
  have pv: "result =
     (if \<exists>s\<in>set plan. sample_raises cap (snd s) then fallback gid fps fc
      else Inr (map (\<lambda>s. position_step (fst s)) (filter (\<lambda>s. frame_decoded cap (snd s)) plan)))"
    using process_video_planned [OF o sp [unfolded fps_def fc_def], of gid]
      extract_result [OF sp, of self cap gid fs1]
    by (simp add: result_def fps_def fc_def)
  have none: "filter (\<lambda>s. frame_decoded cap (snd s)) plan = []"
    using nd by (simp add: filter_empty_conv)
  have ex: "(\<exists>(i, frame_number)\<in>set plan. sample_raises cap frame_number) \<longleftrightarrow>
            (\<exists>s\<in>set plan. sample_raises cap (snd s))"
    by (auto simp: case_prod_beta)
  from sampling_plan_Inr [OF sp] obtain n where "compute_num_steps fps fc = Inr n"
    by blast
  then obtain c where c: "float_of_int fc = Inr c"
    by (cases "float_of_int fc")
      (auto simp: compute_num_steps_def float_of_int_20 split: sum.splits if_splits)
  have raising: "(\<not> float_gt_zero fps \<longrightarrow> result = Inr [mock_record 0, mock_record 1, mock_record 2]) \<and>
           (float_gt_zero fps \<longrightarrow>
              (\<exists>c. float_of_int fc = Inr c \<and>
                 (\<forall>q. float_div (float_div c fps) (Fin 30) = Fin q \<longrightarrow>
                    result = Inr (map mock_record (py_range (max 3 (min 6 \<lfloor>q\<rfloor>))))) \<and>
                 ((\<forall>q. float_div (float_div c fps) (Fin 30) \<noteq> Fin q) \<longrightarrow>
                    (\<exists>e. result = Inl e)))) \<and>
           (\<bar>fc\<bar> < 2 ^ 63 \<and> ordinary_rate fps \<longrightarrow>
              (\<exists>mock. result = Inr mock \<and>
                 3 \<le> length mock \<and> length mock \<le> 6 \<and>
                 (\<forall>k<length mock.
                    image_url (mock ! k) =
                      ''https://picsum.photos/id/'' @ str_int (20 + int k) @ ''/800/400'')))"
    if r: "\<exists>s\<in>set plan. sample_raises cap (snd s)"
  proof -
    from pv r have res: "result = fallback gid fps fc"
      by simp
    have a: "result = Inr [mock_record 0, mock_record 1, mock_record 2]"
      if "\<not> float_gt_zero fps"
      using that res by (simp add: fallback_nonpos)
    have b1: "result = Inr (map mock_record (py_range (max 3 (min 6 \<lfloor>q\<rfloor>))))"
      if "float_gt_zero fps" "float_div (float_div c fps) (Fin 30) = Fin q" for q
      using fallback_pos [OF that(1) c that(2), of gid] res by simp
    have b2: "\<exists>e. result = Inl e"
      if "float_gt_zero fps" "\<forall>q. float_div (float_div c fps) (Fin 30) \<noteq> Fin q"
      using fallback_pos_Inl [OF that(1) c that(2), of gid] res by simp
    have t: "\<exists>mock. result = Inr mock \<and>
                 3 \<le> length mock \<and> length mock \<le> 6 \<and>
                 (\<forall>k<length mock.
                    image_url (mock ! k) =
                      ''https://picsum.photos/id/'' @ str_int (20 + int k) @ ''/800/400'')"
      if "\<bar>fc\<bar> < 2 ^ 63 \<and> ordinary_rate fps"
    proof -
      from that fallback_total [of fc fps gid] obtain mock where mock: "fallback gid fps fc = Inr mock"
        by blast
      from fallback_Inr [OF mock] obtain m where "3 \<le> m" "m \<le> 6" "mock = map mock_record (py_range m)"
        by blast
      from mock_range_urls [OF this] mock res show ?thesis
        by simp
    qed
    from a b1 b2 t c show ?thesis
      by blast
  qed
  have silent: "result = Inr []" if "\<not> (\<exists>s\<in>set plan. sample_raises cap (snd s))"
    using that pv none by simp
  show "if \<exists>(i, frame_number)\<in>set plan. sample_raises cap frame_number
      then (\<not> float_gt_zero (v_fps cap) \<longrightarrow>
              fst (process_video env self path gid fs) =
                Inr [mock_record 0, mock_record 1, mock_record 2]) \<and>
           (float_gt_zero (v_fps cap) \<longrightarrow>
              (\<exists>c. float_of_int (v_frame_count cap) = Inr c \<and>
                 (\<forall>q. float_div (float_div c (v_fps cap)) (Fin 30) = Fin q \<longrightarrow>
                    fst (process_video env self path gid fs) =
                      Inr (map mock_record (py_range (max 3 (min 6 \<lfloor>q\<rfloor>))))) \<and>
                 ((\<forall>q. float_div (float_div c (v_fps cap)) (Fin 30) \<noteq> Fin q) \<longrightarrow>
                    (\<exists>e. fst (process_video env self path gid fs) = Inl e)))) \<and>
           (\<bar>v_frame_count cap\<bar> < 2 ^ 63 \<and> ordinary_rate (v_fps cap) \<longrightarrow>
              (\<exists>mock. fst (process_video env self path gid fs) = Inr mock \<and>
                 3 \<le> length mock \<and> length mock \<le> 6 \<and>
                 (\<forall>k<length mock.
                    image_url (mock ! k) =
                      ''https://picsum.photos/id/'' @ str_int (20 + int k) @ ''/800/400'')))
      else fst (process_video env self path gid fs) = Inr []"
    unfolding ex using raising silent
    by (simp only: fps_def [symmetric] fc_def [symmetric] result_def [symmetric] split: if_split) blast
qed

text \<open>A clip of 3597 frames at the frame rate 23.98 whose reads all raise: the duration
  \<open>3597 / 23.98\<close> is 150.0 on doubles and the pipeline returns five mock records.\<close>

lemma film_duration:
  "float_div (float_div (Fin 3597) film_rate) (Fin 30) = Fin 5"
proof -
  have "round_double (3597 / (6749769941521531 / 281474976710656)) = Fin 150"
    using round_double_value [of "3597 / (6749769941521531 / 281474976710656)" 7 5277655813324800]
    by (simp add: pow2_def)
  moreover have "round_double (150 / 30) = Fin 5"
    using round_double_int [of 5] by simp
  ultimately show ?thesis
    by (simp add: film_rate_def)
qed

theorem undecodable_video_result_witness:
  "open_source example_env (VideoProcessor example_env) ''clips/film.mp4'' example_fs =
     (Inr film_raising_video, example_fs) \<and>
   sampling_plan (v_fps film_raising_video) (v_frame_count film_raising_video) =
     Inr [(0, 0), (1, 599), (2, 1198), (3, 1797), (4, 2396), (5, 2995)] \<and>
   \<not> frame_decoded film_raising_video 0 \<and>
   \<not> frame_decoded film_raising_video 599 \<and>
   \<not> frame_decoded film_raising_video 1198 \<and>
   \<not> frame_decoded film_raising_video 1797 \<and>
   \<not> frame_decoded film_raising_video 2396 \<and>
   \<not> frame_decoded film_raising_video 2995 \<and>
   sample_raises film_raising_video 0 \<and>
   float_gt_zero (v_fps film_raising_video) \<and>
   fst (process_video example_env (VideoProcessor example_env) ''clips/film.mp4'' 7 example_fs) =
     Inr [mock_record 0, mock_record 1, mock_record 2, mock_record 3, mock_record 4]"
proof -
  have h1: "open_source example_env (VideoProcessor example_env) ''clips/film.mp4'' example_fs =
     (Inr film_raising_video, example_fs)"
    by (simp add: open_source_def startswith_def VideoCapture_def example_fs_def)
  have h2: "sampling_plan (v_fps film_raising_video) (v_frame_count film_raising_video) =
     Inr [(0, 0), (1, 599), (2, 1198), (3, 1797), (4, 2396), (5, 2995)]"
    by (simp add: film_raising_video_def sampling_plan_film_3597)
  have nd: "\<not> frame_decoded film_raising_video n" for n
    by (simp add: frame_decoded_def film_raising_video_def)
  have sr: "sample_raises film_raising_video n" for n
    by (simp add: sample_raises_def film_raising_video_def)
  have gt: "float_gt_zero (v_fps film_raising_video)"
    by (simp add: film_raising_video_def film_rate_def)
  have c: "float_of_int (v_frame_count film_raising_video) = Inr (Fin 3597)"
    unfolding film_raising_video_def by simp (rule float_of_int_numeral, simp)
  have q: "float_div (float_div (Fin 3597) (v_fps film_raising_video)) (Fin 30) = Fin 5"
    using film_duration by (simp add: film_raising_video_def)
  have h3: "\<forall>(i, frame_number)\<in>set [(0::int, 0::int), (1, 599), (2, 1198), (3, 1797), (4, 2396), (5, 2995)].
      \<not> frame_decoded film_raising_video frame_number"
    using nd by simp
  have h4: "\<exists>(i, frame_number)\<in>set [(0::int, 0::int), (1, 599), (2, 1198), (3, 1797), (4, 2396), (5, 2995)].
      sample_raises film_raising_video frame_number"
    using sr by auto
  from undecodable_video_result [of example_env "VideoProcessor example_env" "''clips/film.mp4''"
      example_fs film_raising_video example_fs
      "[(0, 0), (1, 599), (2, 1198), (3, 1797), (4, 2396), (5, 2995)]" 7] h1 h2 h3 h4 gt
  obtain c' where c': "float_of_int (v_frame_count film_raising_video) = Inr c'"
    "\<forall>q. float_div (float_div c' (v_fps film_raising_video)) (Fin 30) = Fin q \<longrightarrow>
       fst (process_video example_env (VideoProcessor example_env) ''clips/film.mp4'' 7 example_fs) =
         Inr (map mock_record (py_range (max 3 (min 6 \<lfloor>q\<rfloor>))))"
    by auto
  from c c'(1) have "c' = Fin 3597"
    by simp
  with c'(2) q
  have "fst (process_video example_env (VideoProcessor example_env) ''clips/film.mp4'' 7 example_fs) =
         Inr (map mock_record (py_range (max 3 (min 6 \<lfloor>5::rat\<rfloor>))))"
    by blast
  then have "fst (process_video example_env (VideoProcessor example_env) ''clips/film.mp4'' 7 example_fs) =
     Inr [mock_record 0, mock_record 1, mock_record 2, mock_record 3, mock_record 4]"
    by (simp add: py_range_5)
  with h1 h2 nd sr gt show ?thesis
    by simp
qed

text \<open>
  Claim C1 as stated fails: a clip that opens and whose three planned reads all return
  \<open>ret = False\<close> gives the empty list, not mock records.
\<close>

theorem undecodable_video_counterexample:
  "fst (process_video example_env (VideoProcessor example_env) ''clips/undecodable.mp4'' 7 example_fs) =
     Inr []"
proof -
  have "example_fs ''clips/undecodable.mp4'' = Some (VideoData undecodable_video)"
    by (simp add: example_fs_def)
  with process_video_clip [where fs = example_fs and path = "''clips/undecodable.mp4''"
      and v = undecodable_video and env = example_env and self = "VideoProcessor example_env"
      and gid = 7]
  show ?thesis
    by (simp add: startswith_def undecodable_video_def sample_raises_def frame_decoded_def)
qed

section \<open>The order of the returned steps\<close>

lemma plan_filter:
  "map (\<lambda>s. f (fst s)) (filter (\<lambda>s. P (snd s)) (map (\<lambda>i. (i, i * iv)) xs)) =
   map f (filter (\<lambda>i. P (i * iv)) xs)"
  by (induction xs) auto

lemma process_video_steps:
  assumes "open_source env self path fs = (Inr cap, fs1)"
    and "fst (process_video env self path gid fs) = Inr steps"
  shows "(\<exists>m. 3 \<le> m \<and> m \<le> 6 \<and> steps = map mock_record (py_range m)) \<or>
         (\<exists>n. compute_num_steps (v_fps cap) (v_frame_count cap) = Inr n \<and> 3 \<le> n \<and> n \<le> 6 \<and>
            (\<forall>i\<in>set (py_range n). \<not> sample_raises cap (i * (v_frame_count cap div n))) \<and>
            steps = map position_step
                (filter (\<lambda>i. frame_decoded cap (i * (v_frame_count cap div n))) (py_range n)))"
proof -
  define fps where "fps = v_fps cap"
  define fc where "fc = v_frame_count cap"
  from assms obtain d where "logged_duration fps fc = Inr d"
    by (cases "logged_duration fps fc") (auto simp: process_video_def fps_def fc_def)
  with assms have ex: "fst (extract_keyframes_and_generate_steps self cap fps fc gid fs1) = Inr steps"
    by (simp add: process_video_def fps_def fc_def)
  show ?thesis
  proof (cases "sampling_plan fps fc")
    case (Inl e)
    with ex have "fallback gid fps fc = Inr steps"
      by (simp add: extract_no_plan)
    from fallback_Inr [OF this] show ?thesis
      by blast
  next
    case (Inr plan)
    from sampling_plan_Inr [OF Inr] obtain n
      where n: "compute_num_steps fps fc = Inr n" "3 \<le> n" "n \<le> 6"
        and plan: "plan = map (\<lambda>i. (i, i * (fc div n))) (py_range n)"
      by blast
    show ?thesis
    proof (cases "\<exists>s\<in>set plan. sample_raises cap (snd s)")
      case True
      with ex extract_result [OF Inr, of self cap gid fs1] have "fallback gid fps fc = Inr steps"
        by simp
      from fallback_Inr [OF this] show ?thesis
        by blast
    next
      case False
      with ex extract_result [OF Inr, of self cap gid fs1]
      have "steps = map (\<lambda>s. position_step (fst s)) (filter (\<lambda>s. frame_decoded cap (snd s)) plan)"
        by simp
      then have "steps = map position_step (filter (\<lambda>i. frame_decoded cap (i * (fc div n))) (py_range n))"
        unfolding plan by (simp only: plan_filter)
      moreover from False have "\<forall>i\<in>set (py_range n). \<not> sample_raises cap (i * (fc div n))"
        by (auto simp: plan)
      ultimately show ?thesis
        using n by (auto simp: fps_def fc_def)
    qed
  qed
qed

lemma sorted_py_range: "sorted_wrt (<) (py_range n)"
  by (simp add: py_range_def sorted_wrt_map)

lemma increasing_ge_index:
  fixes xs :: "int list"
  assumes "sorted_wrt (<) xs" "\<forall>x\<in>set xs. 0 \<le> x"
  shows "k < length xs \<Longrightarrow> int k \<le> xs ! k"
proof (induction k)
  case 0
  then show ?case
    using assms(2) by (simp add: nth_mem)
next
  case (Suc k)
  then have "xs ! k < xs ! Suc k"
    using assms(1) by (simp add: sorted_wrt_nth_less)
  moreover have "int k \<le> xs ! k"
    using Suc by simp
  ultimately show ?case
    by simp
qed

lemma filtered_range_orders:
  fixes P :: "int \<Rightarrow> bool"
  assumes "n \<le> 6"
  shows "sorted_wrt (<) (map (\<lambda>i. i + 1) (filter P (py_range n))) \<and>
         (\<forall>k<length (filter P (py_range n)).
            int k + 1 \<le> filter P (py_range n) ! k + 1 \<and> filter P (py_range n) ! k + 1 \<le> 6)"
proof -
  define xs where "xs = filter P (py_range n)"
  have s: "sorted_wrt (<) xs"
    unfolding xs_def by (intro sorted_wrt_filter sorted_py_range)
  have mem: "\<forall>x\<in>set xs. 0 \<le> x"
    by (auto simp: xs_def set_py_range)
  have up: "\<forall>x\<in>set xs. x < n"
    by (auto simp: xs_def set_py_range)
  have "sorted_wrt (\<lambda>x y. x + 1 < y + 1) xs"
    using s by (rule sorted_wrt_mono_rel [rotated]) simp
  then have s1: "sorted_wrt (<) (map (\<lambda>i. i + 1) xs)"
    unfolding sorted_wrt_map .
  have "int k + 1 \<le> xs ! k + 1 \<and> xs ! k + 1 \<le> 6" if "k < length xs" for k
  proof -
    have "int k \<le> xs ! k"
      using s mem that by (rule increasing_ge_index)
    moreover have "xs ! k < n"
      using up that by (simp add: nth_mem)
    ultimately show ?thesis
      using assms by simp
  qed
  with s1 show ?thesis
    unfolding xs_def by blast
qed

lemma order_position_step: "order \<circ> position_step = (\<lambda>i. i + 1)"
  by (auto simp: position_step_def)

lemma order_mock_record: "order \<circ> mock_record = (\<lambda>i. i + 1)"
  by (auto simp: mock_record_def)

lemma filter_True_eq: "filter (\<lambda>i. True) xs = xs"
  by simp

lemma process_video_orders:
  assumes "open_source env self path fs = (Inr cap, fs1)"
    and "fst (process_video env self path gid fs) = Inr steps"
  shows "\<exists>P n. n \<le> 6 \<and> map order steps = map (\<lambda>i. i + 1) (filter P (py_range n))"
proof -
  from process_video_steps [OF assms]
  consider m where "m \<le> 6" "steps = map mock_record (py_range m)"
    | n where "n \<le> 6"
        "steps = map position_step
                (filter (\<lambda>i. frame_decoded cap (i * (v_frame_count cap div n))) (py_range n))"
    by blast
  then show ?thesis
  proof cases
    case 1
    then have "map order steps = map (\<lambda>i. i + 1) (filter (\<lambda>i. True) (py_range m))"
      by (simp add: order_mock_record)
    with 1(1) show ?thesis
      by blast
  next
    case 2
    then have "map order steps =
        map (\<lambda>i. i + 1) (filter (\<lambda>i. frame_decoded cap (i * (v_frame_count cap div n))) (py_range n))"
      by (simp add: order_position_step)
    with 2(1) show ?thesis
      by blast
  qed
qed

lemma not_raising_not_missing:
  "\<not> sample_raises cap k \<Longrightarrow> v_read cap k \<noteq> NoFrame \<Longrightarrow> frame_decoded cap k"
  by (cases "v_read cap k") (auto simp: sample_raises_def frame_decoded_def)

text \<open>
  Claim C6, as amended.  In every step list the pipeline returns, the \<open>order\<close> values
  increase strictly and the record at list position \<open>k\<close> has an \<open>order\<close> of at least
  \<open>k + 1\<close> and at most 6: \<open>order\<close> is one more than the ordinal of the sample, not the
  position in the list.  It equals \<open>k + 1\<close> on the mock path and whenever no planned read
  returned \<open>ret = False\<close>.
\<close>

theorem step_orders:
  "(\<forall>steps. fst (process_video env self path gid fs) = Inr steps \<longrightarrow>
       sorted_wrt (<) (map order steps) \<and>
       (\<forall>k<length steps. int k + 1 \<le> order (steps ! k) \<and> order (steps ! k) \<le> 6)) \<and>
   (\<forall>cap fs1 steps.
       open_source env self path fs = (Inr cap, fs1) \<and>
       (\<forall>plan. sampling_plan (v_fps cap) (v_frame_count cap) = Inr plan \<longrightarrow>
          (\<forall>(i, frame_number)\<in>set plan. v_read cap frame_number \<noteq> NoFrame)) \<and>
       fst (process_video env self path gid fs) = Inr steps \<longrightarrow>
       (\<forall>k<length steps. order (steps ! k) = int k + 1))"
proof (rule conjI; intro allI impI)
  fix steps
  assume r: "fst (process_video env self path gid fs) = Inr steps"
  obtain res fs1 where os: "open_source env self path fs = (res, fs1)"
    by (cases "open_source env self path fs")
  with r obtain cap where "res = Inr cap"
    by (cases res) (auto simp: process_video_not_opened)
  with os have "open_source env self path fs = (Inr cap, fs1)"
    by simp
  from process_video_orders [OF this r]
  obtain P n where n: "n \<le> 6" and o: "map order steps = map (\<lambda>i. i + 1) (filter P (py_range n))"
    by blast
  from filtered_range_orders [OF n, of P]
  have a: "sorted_wrt (<) (map order steps)"
    and b: "\<forall>k<length (filter P (py_range n)).
       int k + 1 \<le> filter P (py_range n) ! k + 1 \<and> filter P (py_range n) ! k + 1 \<le> 6"
    using o by simp_all
  have len: "length steps = length (filter P (py_range n))"
    using o by (metis length_map)
  have nth: "order (steps ! k) = filter P (py_range n) ! k + 1" if "k < length steps" for k
    using that o len by (metis nth_map)
  show "sorted_wrt (<) (map order steps) \<and>
       (\<forall>k<length steps. int k + 1 \<le> order (steps ! k) \<and> order (steps ! k) \<le> 6)"
    using a b len nth by simp
next
  fix cap fs1 steps k
  assume h: "open_source env self path fs = (Inr cap, fs1) \<and>
       (\<forall>plan. sampling_plan (v_fps cap) (v_frame_count cap) = Inr plan \<longrightarrow>
          (\<forall>(i, frame_number)\<in>set plan. v_read cap frame_number \<noteq> NoFrame)) \<and>
       fst (process_video env self path gid fs) = Inr steps"
    and k: "k < length steps"
  then have os: "open_source env self path fs = (Inr cap, fs1)"
    and r: "fst (process_video env self path gid fs) = Inr steps"
    by auto
  from process_video_steps [OF os r]
  consider m where "steps = map mock_record (py_range m)"
    | n where "compute_num_steps (v_fps cap) (v_frame_count cap) = Inr n"
        "\<forall>i\<in>set (py_range n). \<not> sample_raises cap (i * (v_frame_count cap div n))"
        "steps = map position_step
                (filter (\<lambda>i. frame_decoded cap (i * (v_frame_count cap div n))) (py_range n))"
    by blast
  then show "order (steps ! k) = int k + 1"
  proof cases
    case 1
    with k show ?thesis
      by (auto simp: length_py_range nth_py_range mock_record_def)
  next
    case 2
    have "sampling_plan (v_fps cap) (v_frame_count cap) =
            Inr (map (\<lambda>i. (i, i * (v_frame_count cap div n))) (py_range n))"
      using 2(1) by (rule sampling_plan_of)
    with h have "\<forall>i\<in>set (py_range n). v_read cap (i * (v_frame_count cap div n)) \<noteq> NoFrame"
      by auto
    with 2(2) have "\<forall>i\<in>set (py_range n). frame_decoded cap (i * (v_frame_count cap div n))"
      by (auto intro: not_raising_not_missing)
    then have "filter (\<lambda>i. frame_decoded cap (i * (v_frame_count cap div n))) (py_range n) = py_range n"
      by (simp add: filter_id_conv)
    with 2(3) k show ?thesis
      by (auto simp: length_py_range nth_py_range position_step_def)
  qed
qed

theorem step_orders_witness:
  "open_source example_env (VideoProcessor example_env) ''clips/steady.mp4'' example_fs =
     (Inr steady_video, example_fs) \<and>
   fst (process_video example_env (VideoProcessor example_env) ''clips/steady.mp4'' 7 example_fs) =
     Inr [position_step 0, position_step 1, position_step 2] \<and>
   sorted_wrt (<) (map order [position_step 0, position_step 1, position_step 2]) \<and>
   order ([position_step 0, position_step 1, position_step 2] ! 0) = 1 \<and>
   order ([position_step 0, position_step 1, position_step 2] ! 1) = 2 \<and>
   order ([position_step 0, position_step 1, position_step 2] ! 2) = 3"
proof -
  have h1: "open_source example_env (VideoProcessor example_env) ''clips/steady.mp4'' example_fs =
     (Inr steady_video, example_fs)"
    by (simp add: open_source_def startswith_def VideoCapture_def example_fs_def)
  have h2: "fst (process_video example_env (VideoProcessor example_env) ''clips/steady.mp4'' 7 example_fs) =
     Inr [position_step 0, position_step 1, position_step 2]"
    using process_video_clip [where fs = example_fs and path = "''clips/steady.mp4''"
        and v = steady_video and env = example_env and self = "VideoProcessor example_env"
        and gid = 7]
    by (simp add: example_fs_def startswith_def steady_video_def sample_raises_def
        frame_decoded_def optimize_image_hd)
  have h3: "\<forall>plan. sampling_plan (v_fps steady_video) (v_frame_count steady_video) = Inr plan \<longrightarrow>
          (\<forall>(i, frame_number)\<in>set plan. v_read steady_video frame_number \<noteq> NoFrame)"
    by (simp add: steady_video_def)
  from step_orders [of example_env "VideoProcessor example_env" "''clips/steady.mp4''" 7 example_fs]
    h1 h2 h3
  have a: "sorted_wrt (<) (map order [position_step 0, position_step 1, position_step 2])"
    and b: "\<forall>k<length [position_step 0, position_step 1, position_step 2].
          order ([position_step 0, position_step 1, position_step 2] ! k) = int k + 1"
    by blast+
  from b have "order ([position_step 0, position_step 1, position_step 2] ! 0) = 1"
    "order ([position_step 0, position_step 1, position_step 2] ! 1) = 2"
    "order ([position_step 0, position_step 1, position_step 2] ! 2) = 3"
    by force+
  with h1 h2 a show ?thesis
    by blast
qed

text \<open>
  Claim C6 as stated fails: when the read at frame 0 returns \<open>ret = False\<close> and the two
  later reads give frames, the first record of the list has \<open>order = 2\<close>.
\<close>

theorem skipped_sample_order_counterexample:
  "fst (process_video example_env (VideoProcessor example_env) ''clips/late.mp4'' 7 example_fs) =
     Inr [position_step 1, position_step 2] \<and>
   order ([position_step 1, position_step 2] ! 0) = 2"
proof -
  have "fst (process_video example_env (VideoProcessor example_env) ''clips/late.mp4'' 7 example_fs) =
     Inr [position_step 1, position_step 2]"
    using process_video_clip [where fs = example_fs and path = "''clips/late.mp4''"
        and v = late_start_video and env = example_env and self = "VideoProcessor example_env"
        and gid = 7]
    by (simp add: example_fs_def startswith_def late_start_video_def sample_raises_def
        frame_decoded_def optimize_image_hd)
  then show ?thesis
    by (simp add: position_step_def)
qed

section \<open>Opening the source\<close>

lemma not_url_open:
  "\<not> startswith path ''http://'' \<Longrightarrow> \<not> startswith path ''https://'' \<Longrightarrow>
   open_source env self path fs =
     (case VideoCapture fs path of
        None \<Rightarrow> (Inl (ValueError (''Could not open video file: '' @ path)), fs)
      | Some cap \<Rightarrow> (Inr cap, fs))"
  by (simp add: open_source_def)

lemma url_open_failed:
  "startswith path ''http://'' \<or> startswith path ''https://'' \<Longrightarrow>
   http_get env path = RequestFailed m \<Longrightarrow>
   open_source env self path fs = (Inl (RequestException m), fs)"
  by (auto simp: open_source_def download_video_def)

lemma url_open_interrupted:
  "startswith path ''http://'' \<or> startswith path ''https://'' \<Longrightarrow>
   http_get env path = Interrupted part m \<Longrightarrow>
   open_source env self path fs =
     (Inl (RequestException m),
      fs(path_join (temp_dir self) (''video_'' @ urandom_hex env @ ''.mp4'') \<mapsto> part))"
  by (auto simp: open_source_def download_video_def Let_def)

lemma opened_result:
  assumes "open_source env self path fs = (Inr cap, fs1)"
    and "logged_duration (v_fps cap) (v_frame_count cap) = Inr d"
  shows "fst (process_video env self path gid fs) = fallback gid (v_fps cap) (v_frame_count cap) \<or>
         (\<exists>plan. sampling_plan (v_fps cap) (v_frame_count cap) = Inr plan \<and>
            fst (process_video env self path gid fs) =
              Inr (map (position_step \<circ> fst)
                     (filter (\<lambda>(i, frame_number). frame_decoded cap frame_number) plan)))"
proof -
  have pv: "process_video env self path gid fs =
      extract_keyframes_and_generate_steps self cap (v_fps cap) (v_frame_count cap) gid fs1"
    using assms by (rule process_video_opened)
  show ?thesis
  proof (cases "sampling_plan (v_fps cap) (v_frame_count cap)")
    case (Inl e)
    then show ?thesis
      using pv by (simp add: extract_no_plan)
  next
    case (Inr plan)
    have "map (\<lambda>s. position_step (fst s)) (filter (\<lambda>s. frame_decoded cap (snd s)) plan) =
          map (position_step \<circ> fst) (filter (\<lambda>(i, frame_number). frame_decoded cap frame_number) plan)"
      by (simp add: comp_def case_prod_unfold)
    with extract_result [OF Inr, of self cap gid fs1] pv Inr show ?thesis
      by (auto split: if_splits)
  qed
qed

lemma ordinary_rate_30: "ordinary_rate (Fin 30)"
proof -
  have "pow2 (- 900) \<le> pow2 0"
    by (rule pow2_mono) simp
  then show ?thesis
    by (simp add: ordinary_rate_def pow2_0)
qed

text \<open>The clip that reports the smallest positive double as its frame rate: the quotient
  of line 93 overflows, and so does the duration the handler computes.\<close>

lemma tiny_duration_overflows: "round_double (90 / pow2 (- 1074)) = PInf"
proof -
  have "pow2 1024 * pow2 (- 1074) = pow2 (- 50)"
    using pow2_add [of 1024 "- 1074"] by simp
  also have "\<dots> \<le> pow2 0"
    by (rule pow2_mono) simp
  also have "\<dots> \<le> 90"
    by (simp add: pow2_0)
  finally have "pow2 1024 \<le> 90 / pow2 (- 1074)"
    using pow2_pos [of "- 1074"] by (simp add: pos_le_divide_eq)
  then show ?thesis
    by (rule round_double_overflow)
qed

lemma fallback_tiny:
  "fallback gid tiny_rate 90 = Inl (OverflowError ''cannot convert float infinity to integer'')"
proof -
  have nz: "pow2 (- 1074) \<noteq> 0" "0 < pow2 (- 1074)"
    using pow2_pos [of "- 1074"] by simp_all
  then show ?thesis
    using tiny_duration_overflows float_of_int_90 float_of_int_30
    by (simp add: fallback_def tiny_rate_def generate_mock_steps_def inf_of_sign_def)
qed

lemma process_video_tiny:
  "fst (process_video example_env (VideoProcessor example_env) ''clips/tiny.mp4'' 7 example_fs) =
     Inl (OverflowError ''cannot convert float infinity to integer'')"
proof -
  have o: "open_source example_env (VideoProcessor example_env) ''clips/tiny.mp4'' example_fs =
      (Inr tiny_rate_video, example_fs)"
    by (simp add: open_source_def startswith_def VideoCapture_def example_fs_def)
  have "0 < pow2 (- 1074)"
    by (rule pow2_pos)
  then have d: "logged_duration (v_fps tiny_rate_video) (v_frame_count tiny_rate_video) =
      Inr (PyFloat PInf)"
    using tiny_duration_overflows float_of_int_90
    by (simp add: logged_duration_def tiny_rate_video_def tiny_rate_def)
  have sp: "sampling_plan (v_fps tiny_rate_video) (v_frame_count tiny_rate_video) =
      Inl (OverflowError ''cannot convert float infinity to integer'')"
    using compute_num_steps_tiny by (simp add: tiny_rate_video_def sampling_plan_Inl)
  from process_video_opened [OF o d, of 7] extract_no_plan [OF sp] show ?thesis
    by (simp add: tiny_rate_video_def fallback_tiny)
qed

text \<open>
  Claim C3, as amended.  A failure to open the source is raised to the caller with no
  fallback: a path that does not open raises \<open>ValueError\<close>, a request that fails raises the
  request's error, and a download that breaks off raises it too, with the part received
  left in the temporary file.  Once the source has opened, with a frame count below \<open>2 ^ 63\<close>
  in magnitude and a frame rate that is not a positive number below \<open>2 ^ -900\<close>, the caller
  receives no error: the result is a list, either the list of the handler, or the records of
  exactly those planned samples whose read gave a frame, in plan order, which can be fewer
  than planned.  An error that reaches the caller after the source has opened was raised by
  the arithmetic of line 37 or of the handler.
\<close>

theorem open_failure_fatal_then_no_error:
  "(\<forall>e fs1. open_source env self path fs = (Inl e, fs1) \<longrightarrow>
      process_video env self path gid fs = (Inl e, fs1)) \<and>
   (\<not> startswith path ''http://'' \<and> \<not> startswith path ''https://'' \<and> VideoCapture fs path = None \<longrightarrow>
      process_video env self path gid fs =
        (Inl (ValueError (''Could not open video file: '' @ path)), fs)) \<and>
   ((startswith path ''http://'' \<or> startswith path ''https://'') \<and>
    http_get env path = RequestFailed m \<longrightarrow>
      process_video env self path gid fs = (Inl (RequestException m), fs)) \<and>
   ((startswith path ''http://'' \<or> startswith path ''https://'') \<and>
    http_get env path = Interrupted part m \<longrightarrow>
      process_video env self path gid fs =
        (Inl (RequestException m),
         fs(path_join (temp_dir self) (''video_'' @ urandom_hex env @ ''.mp4'') \<mapsto> part))) \<and>
   (\<forall>cap fs1.
      open_source env self path fs = (Inr cap, fs1) \<and>
      \<bar>v_frame_count cap\<bar> < 2 ^ 63 \<and> ordinary_rate (v_fps cap) \<longrightarrow>
      (\<exists>steps. fst (process_video env self path gid fs) = Inr steps \<and>
         (fallback gid (v_fps cap) (v_frame_count cap) = Inr steps \<or>
          (\<exists>plan. sampling_plan (v_fps cap) (v_frame_count cap) = Inr plan \<and>
             steps = map (position_step \<circ> fst)
                       (filter (\<lambda>(i, frame_number). frame_decoded cap frame_number) plan))))) \<and>
   (\<forall>cap fs1 e.
      open_source env self path fs = (Inr cap, fs1) \<and>
      fst (process_video env self path gid fs) = Inl e \<longrightarrow>
      logged_duration (v_fps cap) (v_frame_count cap) = Inl e \<or>
      fallback gid (v_fps cap) (v_frame_count cap) = Inl e)"
proof (intro conjI allI impI)
  fix e fs1
  assume "open_source env self path fs = (Inl e, fs1)"
  then show "process_video env self path gid fs = (Inl e, fs1)"
    by (rule process_video_not_opened)
next
  assume "\<not> startswith path ''http://'' \<and> \<not> startswith path ''https://'' \<and> VideoCapture fs path = None"
  then show "process_video env self path gid fs =
        (Inl (ValueError (''Could not open video file: '' @ path)), fs)"
    by (simp add: not_url_open process_video_not_opened)
next
  assume "(startswith path ''http://'' \<or> startswith path ''https://'') \<and>
    http_get env path = RequestFailed m"
  then show "process_video env self path gid fs = (Inl (RequestException m), fs)"
    by (intro process_video_not_opened url_open_failed) auto
next
  assume "(startswith path ''http://'' \<or> startswith path ''https://'') \<and>
    http_get env path = Interrupted part m"
  then show "process_video env self path gid fs =
        (Inl (RequestException m),
         fs(path_join (temp_dir self) (''video_'' @ urandom_hex env @ ''.mp4'') \<mapsto> part))"
    by (intro process_video_not_opened url_open_interrupted) auto
next
  fix cap fs1
  assume h: "open_source env self path fs = (Inr cap, fs1) \<and>
      \<bar>v_frame_count cap\<bar> < 2 ^ 63 \<and> ordinary_rate (v_fps cap)"
  then have os: "open_source env self path fs = (Inr cap, fs1)"
    and fc: "\<bar>v_frame_count cap\<bar> < 2 ^ 63" and fps: "ordinary_rate (v_fps cap)"
    by auto
  from logged_duration_total [OF fc, of "v_fps cap"] obtain d
    where d: "logged_duration (v_fps cap) (v_frame_count cap) = Inr d"
    by blast
  from fallback_total [OF fc fps, of gid] obtain mock
    where mock: "fallback gid (v_fps cap) (v_frame_count cap) = Inr mock"
    by blast
  from opened_result [OF os d, of gid] mock
  show "\<exists>steps. fst (process_video env self path gid fs) = Inr steps \<and>
         (fallback gid (v_fps cap) (v_frame_count cap) = Inr steps \<or>
          (\<exists>plan. sampling_plan (v_fps cap) (v_frame_count cap) = Inr plan \<and>
             steps = map (position_step \<circ> fst)
                       (filter (\<lambda>(i, frame_number). frame_decoded cap frame_number) plan)))"
    by auto
next
  fix cap fs1 e
  assume h: "open_source env self path fs = (Inr cap, fs1) \<and>
      fst (process_video env self path gid fs) = Inl e"
  then have os: "open_source env self path fs = (Inr cap, fs1)"
    and r: "fst (process_video env self path gid fs) = Inl e"
    by auto
  show "logged_duration (v_fps cap) (v_frame_count cap) = Inl e \<or>
      fallback gid (v_fps cap) (v_frame_count cap) = Inl e"
  proof (cases "logged_duration (v_fps cap) (v_frame_count cap)")
    case (Inl e')
    with os r show ?thesis
      by (simp add: process_video_def)
  next
    case (Inr d)
    from opened_result [OF os Inr, of gid] r show ?thesis
      by auto
  qed
qed

theorem open_failure_fatal_then_no_error_witness:
  "open_source example_env (VideoProcessor example_env) ''clips/notes.txt'' example_fs =
     (Inl (ValueError ''Could not open video file: clips/notes.txt''), example_fs) \<and>
   VideoCapture example_fs ''clips/notes.txt'' = None \<and>
   process_video example_env (VideoProcessor example_env) ''clips/notes.txt'' 7 example_fs =
     (Inl (ValueError ''Could not open video file: clips/notes.txt''), example_fs) \<and>
   http_get example_env ''https://example.org/none.mp4'' = RequestFailed ''404 Client Error'' \<and>
   process_video example_env (VideoProcessor example_env) ''https://example.org/none.mp4'' 7 example_fs =
     (Inl (RequestException ''404 Client Error''), example_fs) \<and>
   http_get example_env ''https://example.org/broken.mp4'' = Interrupted OtherData ''Connection broken'' \<and>
   fst (process_video example_env (VideoProcessor example_env) ''https://example.org/broken.mp4'' 7
          example_fs) = Inl (RequestException ''Connection broken'') \<and>
   snd (process_video example_env (VideoProcessor example_env) ''https://example.org/broken.mp4'' 7
          example_fs) ''/tmp/tmpk3v9/video_00a1b2c3d4e5f607.mp4'' = Some OtherData \<and>
   open_source example_env (VideoProcessor example_env) ''clips/late.mp4'' example_fs =
     (Inr late_start_video, example_fs) \<and>
   \<bar>v_frame_count late_start_video\<bar> < 2 ^ 63 \<and> ordinary_rate (v_fps late_start_video) \<and>
   (\<exists>steps. fst (process_video example_env (VideoProcessor example_env) ''clips/late.mp4'' 7 example_fs) =
      Inr steps) \<and>
   open_source example_env (VideoProcessor example_env) ''clips/tiny.mp4'' example_fs =
     (Inr tiny_rate_video, example_fs) \<and>
   fst (process_video example_env (VideoProcessor example_env) ''clips/tiny.mp4'' 7 example_fs) =
     Inl (OverflowError ''cannot convert float infinity to integer'') \<and>
   fallback 7 (v_fps tiny_rate_video) (v_frame_count tiny_rate_video) =
     Inl (OverflowError ''cannot convert float infinity to integer'')"
proof -
  have h1: "\<not> startswith ''clips/notes.txt'' ''http://'' \<and> \<not> startswith ''clips/notes.txt'' ''https://'' \<and>
      VideoCapture example_fs ''clips/notes.txt'' = None"
    by (simp add: startswith_def VideoCapture_def example_fs_def)
  have h2: "(startswith ''https://example.org/none.mp4'' ''http://'' \<or>
       startswith ''https://example.org/none.mp4'' ''https://'') \<and>
      http_get example_env ''https://example.org/none.mp4'' = RequestFailed ''404 Client Error''"
    by (simp add: startswith_def example_env_def)
  have h2': "(startswith ''https://example.org/broken.mp4'' ''http://'' \<or>
       startswith ''https://example.org/broken.mp4'' ''https://'') \<and>
      http_get example_env ''https://example.org/broken.mp4'' =
        Interrupted OtherData ''Connection broken''"
    by (simp add: startswith_def example_env_def)
  have h3: "open_source example_env (VideoProcessor example_env) ''clips/late.mp4'' example_fs =
     (Inr late_start_video, example_fs)"
    by (simp add: open_source_def startswith_def VideoCapture_def example_fs_def)
  have h3': "\<bar>v_frame_count late_start_video\<bar> < 2 ^ 63" "ordinary_rate (v_fps late_start_video)"
    by (simp_all add: late_start_video_def ordinary_rate_30)
  have h4: "open_source example_env (VideoProcessor example_env) ''clips/tiny.mp4'' example_fs =
     (Inr tiny_rate_video, example_fs)"
    by (simp add: open_source_def startswith_def VideoCapture_def example_fs_def)
  have h5: "fst (process_video example_env (VideoProcessor example_env) ''clips/tiny.mp4'' 7 example_fs) =
     Inl (OverflowError ''cannot convert float infinity to integer'')"
    by (rule process_video_tiny)
  have ld: "logged_duration (v_fps tiny_rate_video) (v_frame_count tiny_rate_video) \<noteq>
     Inl (OverflowError ''cannot convert float infinity to integer'')"
    using float_of_int_90 by (simp add: logged_duration_def tiny_rate_video_def tiny_rate_def)
  from open_failure_fatal_then_no_error
    [of example_env "VideoProcessor example_env" "''clips/notes.txt''" example_fs 7] h1
  have a: "process_video example_env (VideoProcessor example_env) ''clips/notes.txt'' 7 example_fs =
     (Inl (ValueError (''Could not open video file: '' @ ''clips/notes.txt'')), example_fs)"
    by blast
  from open_failure_fatal_then_no_error
    [where env = example_env and self = "VideoProcessor example_env"
       and path = "''https://example.org/none.mp4''" and fs = example_fs and gid = 7
       and m = "''404 Client Error''"] h2
  have b: "process_video example_env (VideoProcessor example_env) ''https://example.org/none.mp4'' 7 example_fs =
     (Inl (RequestException ''404 Client Error''), example_fs)"
    by blast
  from open_failure_fatal_then_no_error
    [where env = example_env and self = "VideoProcessor example_env"
       and path = "''https://example.org/broken.mp4''" and fs = example_fs and gid = 7
       and part = OtherData and m = "''Connection broken''"] h2'
  have "process_video example_env (VideoProcessor example_env) ''https://example.org/broken.mp4'' 7 example_fs =
     (Inl (RequestException ''Connection broken''),
      example_fs(path_join (temp_dir (VideoProcessor example_env))
                   (''video_'' @ urandom_hex example_env @ ''.mp4'') \<mapsto> OtherData))"
    by blast
  moreover have "path_join (temp_dir (VideoProcessor example_env))
        (''video_'' @ urandom_hex example_env @ ''.mp4'') = ''/tmp/tmpk3v9/video_00a1b2c3d4e5f607.mp4''"
    by (simp add: VideoProcessor_def example_env_def path_join_def startswith_def endswith_def)
  ultimately have b': "fst (process_video example_env (VideoProcessor example_env)
          ''https://example.org/broken.mp4'' 7 example_fs) = Inl (RequestException ''Connection broken'')"
      "snd (process_video example_env (VideoProcessor example_env) ''https://example.org/broken.mp4'' 7
          example_fs) ''/tmp/tmpk3v9/video_00a1b2c3d4e5f607.mp4'' = Some OtherData"
    by simp_all
  from open_failure_fatal_then_no_error
    [of example_env "VideoProcessor example_env" "''clips/late.mp4''" example_fs 7] h3 h3'
  have c: "\<exists>steps. fst (process_video example_env (VideoProcessor example_env) ''clips/late.mp4'' 7 example_fs) =
      Inr steps"
    by blast
  from open_failure_fatal_then_no_error
    [of example_env "VideoProcessor example_env" "''clips/tiny.mp4''" example_fs 7] h4 h5 ld
  have d: "fallback 7 (v_fps tiny_rate_video) (v_frame_count tiny_rate_video) =
     Inl (OverflowError ''cannot convert float infinity to integer'')"
    by blast
  have h0: "open_source example_env (VideoProcessor example_env) ''clips/notes.txt'' example_fs =
     (Inl (ValueError ''Could not open video file: clips/notes.txt''), example_fs)"
    by (simp add: open_source_def startswith_def VideoCapture_def example_fs_def)
  from h0 h1 h2 h2' h3 h3' h4 h5 a b b' c d show ?thesis
    by simp
qed

text \<open>
  Claim C3 as stated fails.  A clip whose first planned read gives a frame and whose two
  other reads return \<open>ret = False\<close> yields one record for a plan of three samples.  A clip
  that opens, reports the smallest positive double as its frame rate and whose reads raise
  makes the handler raise \<open>OverflowError\<close>, which reaches the caller.
\<close>

theorem partial_result_counterexample:
  "fst (process_video example_env (VideoProcessor example_env) ''clips/first.mp4'' 7 example_fs) =
     Inr [position_step 0] \<and>
   sampling_plan (v_fps first_frame_only_video) (v_frame_count first_frame_only_video) =
     Inr [(0, 0), (1, 30), (2, 60)] \<and>
   open_source example_env (VideoProcessor example_env) ''clips/tiny.mp4'' example_fs =
     (Inr tiny_rate_video, example_fs) \<and>
   fst (process_video example_env (VideoProcessor example_env) ''clips/tiny.mp4'' 7 example_fs) =
     Inl (OverflowError ''cannot convert float infinity to integer'')"
proof -
  have "fst (process_video example_env (VideoProcessor example_env) ''clips/first.mp4'' 7 example_fs) =
     Inr [position_step 0]"
    using process_video_clip [where fs = example_fs and path = "''clips/first.mp4''"
        and v = first_frame_only_video and env = example_env
        and self = "VideoProcessor example_env" and gid = 7]
    by (simp add: example_fs_def startswith_def first_frame_only_video_def sample_raises_def
        frame_decoded_def optimize_image_hd)
  moreover have "sampling_plan (v_fps first_frame_only_video) (v_frame_count first_frame_only_video) =
     Inr [(0, 0), (1, 30), (2, 60)]"
    by (simp add: first_frame_only_video_def sampling_plan_30_90)
  moreover have "open_source example_env (VideoProcessor example_env) ''clips/tiny.mp4'' example_fs =
     (Inr tiny_rate_video, example_fs)"
    by (simp add: open_source_def startswith_def VideoCapture_def example_fs_def)
  ultimately show ?thesis
    using process_video_tiny by simp
qed

section \<open>Temporary files\<close>


















section \<open>The guide identifier\<close>

text \<open>
  Claim C9, as amended.  A guide identifier the caller supplies is used as it is.  Without
  one, the identifier is \<open>hash(video_hash) % 10000\<close>, a number from 0 to 9999 computed with
  the interpreter's built-in string hash from the SHA-256 digest of the content.  Two runs
  over the same content derive the same identifier when they use the same string hash, that
  is, within one interpreter process.
\<close>

theorem guide_id_derivation:
  "actual_guide_id env (Some g) content = g \<and>
   actual_guide_id env None content = str_hash env (sha256_hexdigest env content) mod 10000 \<and>
   0 \<le> actual_guide_id env None content \<and>
   actual_guide_id env None content < 10000 \<and>
   (str_hash env' = str_hash env \<and> sha256_hexdigest env' = sha256_hexdigest env \<longrightarrow>
      actual_guide_id env' None content = actual_guide_id env None content)"
  by (simp add: actual_guide_id_def)

theorem guide_id_derivation_witness:
  "str_hash (example_env\<lparr>uuid4 := ''7d3c1f0a-9b2e-4e61-8a57-c0d4e2f6a813''\<rparr>) = str_hash example_env \<and>
   sha256_hexdigest (example_env\<lparr>uuid4 := ''7d3c1f0a-9b2e-4e61-8a57-c0d4e2f6a813''\<rparr>) =
     sha256_hexdigest example_env \<and>
   actual_guide_id (example_env\<lparr>uuid4 := ''7d3c1f0a-9b2e-4e61-8a57-c0d4e2f6a813''\<rparr>) None OtherData =
     actual_guide_id example_env None OtherData \<and>
   actual_guide_id example_env None OtherData = 2793 \<and>
   actual_guide_id example_env (Some 41) OtherData = 41"
proof -
  have h: "str_hash (example_env\<lparr>uuid4 := ''7d3c1f0a-9b2e-4e61-8a57-c0d4e2f6a813''\<rparr>) = str_hash example_env \<and>
      sha256_hexdigest (example_env\<lparr>uuid4 := ''7d3c1f0a-9b2e-4e61-8a57-c0d4e2f6a813''\<rparr>) =
        sha256_hexdigest example_env"
    by simp
  have v: "str_hash example_env (sha256_hexdigest example_env OtherData) mod 10000 = 2793"
    by (simp add: example_env_def)
  from guide_id_derivation [of example_env 41 OtherData
      "example_env\<lparr>uuid4 := ''7d3c1f0a-9b2e-4e61-8a57-c0d4e2f6a813''\<rparr>"] h v
  show ?thesis
    by simp
qed

text \<open>
  Claim C9 as stated fails: two interpreter processes with different string hashes derive
  the identifiers 2793 and 9460 for the same content and the same digest.
\<close>

theorem guide_id_across_restart_counterexample:
  "sha256_hexdigest restarted_env OtherData = sha256_hexdigest example_env OtherData \<and>
   actual_guide_id example_env None OtherData = 2793 \<and>
   actual_guide_id restarted_env None OtherData = 9460"
  by (simp add: actual_guide_id_def restarted_env_def example_env_def)

section \<open>The upload handler never answers\<close>

lemma upload_video_rejected:
  "\<not> list_ex (\<lambda>ext. endswith (lower filename) ext) (ALLOWED_EXTENSIONS env) \<Longrightarrow>
   \<exists>d. fst (upload_video env filename content guide_id callback_url fs) = Inl (HTTPException 400 d)"
  by (simp add: upload_video_def)

lemma upload_video_accepted:
  assumes "list_ex (\<lambda>ext. endswith (lower filename) ext) (ALLOWED_EXTENSIONS env)"
  shows "fst (upload_video env filename content guide_id callback_url fs) =
     (case fst (process_video env (VideoProcessor env)
                  (path_join (UPLOAD_FOLDER env) (uuid4 env @ path_suffix filename))
                  (actual_guide_id env guide_id content)
                  (fs(path_join (UPLOAD_FOLDER env) (uuid4 env @ path_suffix filename) \<mapsto> content))) of
        Inl e \<Rightarrow> Inl (HTTPException 500 (str_exc e))
      | Inr steps \<Rightarrow> Inl (HTTPException 500 ''list indices must be integers or slices, not str''))"
  using assms by (simp add: upload_video_def Let_def split: prod.splits sum.splits)

text \<open>
  Claim C10.  \<open>upload_video\<close> never returns a response.  Whenever \<open>process_video\<close> returns
  normally for an accepted upload, its value is a list, the item assignment
  \<open>result["cached"] = False\<close> raises \<open>TypeError\<close>, and the handler raises HTTP status 500 with
  that error's text.
\<close>

theorem upload_never_succeeds:
  "(\<forall>result. fst (upload_video env filename content guide_id callback_url fs) \<noteq> Inr result) \<and>
   (list_ex (\<lambda>ext. endswith (lower filename) ext) (ALLOWED_EXTENSIONS env) \<and>
    fst (process_video env (VideoProcessor env)
           (path_join (UPLOAD_FOLDER env) (uuid4 env @ path_suffix filename))
           (actual_guide_id env guide_id content)
           (fs(path_join (UPLOAD_FOLDER env) (uuid4 env @ path_suffix filename) \<mapsto> content))) =
      Inr steps \<longrightarrow>
    py_setitem (ListObj steps) ''cached'' (BoolObj False) =
      Inl (TypeError ''list indices must be integers or slices, not str'') \<and>
    fst (upload_video env filename content guide_id callback_url fs) =
      Inl (HTTPException 500 ''list indices must be integers or slices, not str''))"
proof (intro conjI allI impI)
  fix result
  show "fst (upload_video env filename content guide_id callback_url fs) \<noteq> Inr result"
  proof (cases "list_ex (\<lambda>ext. endswith (lower filename) ext) (ALLOWED_EXTENSIONS env)")
    case True
    then show ?thesis
      by (simp add: upload_video_accepted split: sum.splits)
  next
    case False
    from upload_video_rejected [OF this, of content guide_id callback_url fs] show ?thesis
      by auto
  qed
next
  show "py_setitem (ListObj steps) ''cached'' (BoolObj False) =
      Inl (TypeError ''list indices must be integers or slices, not str'')"
    by simp
next
  assume "list_ex (\<lambda>ext. endswith (lower filename) ext) (ALLOWED_EXTENSIONS env) \<and>
    fst (process_video env (VideoProcessor env)
           (path_join (UPLOAD_FOLDER env) (uuid4 env @ path_suffix filename))
           (actual_guide_id env guide_id content)
           (fs(path_join (UPLOAD_FOLDER env) (uuid4 env @ path_suffix filename) \<mapsto> content))) =
      Inr steps"
  then show "fst (upload_video env filename content guide_id callback_url fs) =
      Inl (HTTPException 500 ''list indices must be integers or slices, not str'')"
    by (simp add: upload_video_accepted)
qed

theorem upload_never_succeeds_witness:
  "list_ex (\<lambda>ext. endswith (lower ''Holiday.MP4'') ext) (ALLOWED_EXTENSIONS example_env) \<and>
   fst (process_video example_env (VideoProcessor example_env)
          (path_join (UPLOAD_FOLDER example_env) (uuid4 example_env @ path_suffix ''Holiday.MP4''))
          (actual_guide_id example_env None (VideoData steady_video))
          (example_fs(path_join (UPLOAD_FOLDER example_env)
                        (uuid4 example_env @ path_suffix ''Holiday.MP4'') \<mapsto>
             VideoData steady_video))) =
     Inr [position_step 0, position_step 1, position_step 2] \<and>
   fst (upload_video example_env ''Holiday.MP4'' (VideoData steady_video) None None example_fs) =
     Inl (HTTPException 500 ''list indices must be integers or slices, not str'')"
proof -
  have h1: "list_ex (\<lambda>ext. endswith (lower ''Holiday.MP4'') ext) (ALLOWED_EXTENSIONS example_env)"
    by (simp add: example_env_def endswith_def lower_def lower_char_def)
  have up: "path_join (UPLOAD_FOLDER example_env) (uuid4 example_env @ path_suffix ''Holiday.MP4'') =
      ''uploads/0b7e6c1e-5a0c-4c58-9d3e-2f1a4b6c8d90.MP4''"
    by (simp add: example_env_def path_join_def startswith_def endswith_def path_suffix_def
        final_component_def)
  have h2: "fst (process_video example_env (VideoProcessor example_env)
          (path_join (UPLOAD_FOLDER example_env) (uuid4 example_env @ path_suffix ''Holiday.MP4''))
          (actual_guide_id example_env None (VideoData steady_video))
          (example_fs(path_join (UPLOAD_FOLDER example_env)
                        (uuid4 example_env @ path_suffix ''Holiday.MP4'') \<mapsto>
             VideoData steady_video))) =
     Inr [position_step 0, position_step 1, position_step 2]"
    unfolding up
    using process_video_clip
      [where fs = "example_fs(''uploads/0b7e6c1e-5a0c-4c58-9d3e-2f1a4b6c8d90.MP4'' \<mapsto>
                     VideoData steady_video)"
        and path = "''uploads/0b7e6c1e-5a0c-4c58-9d3e-2f1a4b6c8d90.MP4''"
        and v = steady_video and env = example_env and self = "VideoProcessor example_env"
        and gid = "actual_guide_id example_env None (VideoData steady_video)"]
    by (simp add: startswith_def steady_video_def sample_raises_def frame_decoded_def
        optimize_image_hd)
  from upload_never_succeeds [of example_env "''Holiday.MP4''" "VideoData steady_video" None None
      example_fs "[position_step 0, position_step 1, position_step 2]"] h1 h2
  have "fst (upload_video example_env ''Holiday.MP4'' (VideoData steady_video) None None example_fs) =
     Inl (HTTPException 500 ''list indices must be integers or slices, not str'')"
    by blast
  with h1 h2 show ?thesis
    by blast
qed


end
